theory Spec2Isabelle
  imports Main "HOL-Library.Sublist"
begin

text \<open>
  The core of the fall-audit tool, \<open>AIProcessingCore\<close> of
  \<open>fall_audit_final_qwen_brain.py\<close>: the prompt builder, the inference invoker, the
  result extractor, the batch runner and the result sink.

  The functions of the class are embedded as functions on explicit state. What lies
  outside the program is an input of the model: the external inference process
  (\<open>subprocess.run\<close>), the JSON decoder (\<open>json.loads\<close>), the observer that may set
  \<open>cancel_requested\<close> while a run is under way, and whether the output file can be
  opened. The library functions whose behaviour the properties depend on are written
  out: \<open>textwrap.dedent\<close>, \<open>str.strip\<close>, \<open>str.join\<close>, the regular expression of the
  extractor, \<open>csv.writer\<close>, \<open>repr\<close> and the UTF-8 encoding of the output file. An
  exception is a value: a function that can raise returns the exception or its result.
\<close>

section \<open>Python strings\<close>

text \<open>
  A Python \<open>str\<close> is modelled as a \<^typ>\<open>string\<close>: a list of characters with code
  points below 256. These are the notes and the output of the inference process; a
  decoded value with wider characters is given by its code points (\<open>PUni\<close>).
  \<open>s.split("\n")\<close> and \<open>sep.join(xs)\<close> are the two library
  operations on lines that the program and \<open>textwrap.dedent\<close> rely on. A split
  never returns the empty list, so the first branch of the \<open>case\<close> in \<open>split_nl\<close>
  is never taken (\<open>split_nl_not_Nil\<close>).
\<close>

fun split_nl :: "string \<Rightarrow> string list" where
  "split_nl [] = [[]]"
| "split_nl (c # cs) =
     (if c = CHR 0x0A then [] # split_nl cs
      else (case split_nl cs of [] \<Rightarrow> [[c]] | l # ls \<Rightarrow> (c # l) # ls))"

fun py_join :: "string \<Rightarrow> string list \<Rightarrow> string" where
  "py_join sep [] = []"
| "py_join sep [x] = x"
| "py_join sep (x # y # ys) = x @ sep @ py_join sep (y # ys)"

definition join_nl :: "string list \<Rightarrow> string" where
  "join_nl ls = py_join [CHR 0x0A] ls"

section \<open>\<open>textwrap.dedent\<close>\<close>

text \<open>
  The library function works line by line (its regular expressions are anchored with
  \<open>^\<close> and \<open>$\<close> in multi-line mode):
  \<^enum> every line made of spaces and tabs only becomes the empty line
    (\<open>_whitespace_only_re.sub('', text)\<close>);
  \<^enum> the indentation of every line that has a character other than space and tab is
    collected (\<open>_leading_whitespace_re.findall(text)\<close>);
  \<^enum> the margin is computed by the loop over these indentations;
  \<^enum> when the margin is not empty it is removed from the start of every line that
    starts with it.
\<close>

definition is_blank :: "char \<Rightarrow> bool" where
  "is_blank c = (c = CHR '' '' \<or> c = CHR 0x09)"

definition whitespace_only :: "string \<Rightarrow> bool" where
  "whitespace_only l = (l \<noteq> [] \<and> list_all is_blank l)"

definition blank_ws_lines :: "string list \<Rightarrow> string list" where
  "blank_ws_lines ls = map (\<lambda>l. if whitespace_only l then [] else l) ls"

definition indents :: "string list \<Rightarrow> string list" where
  "indents ls = map (takeWhile is_blank) (filter (\<lambda>l. dropWhile is_blank l \<noteq> []) ls)"

text \<open>
  The inner \<open>for i, (x, y) in enumerate(zip(margin, indent))\<close> loop: the margin is cut
  at the first index where the two strings differ; \<open>None\<close> when the loop ends without
  a \<open>break\<close>, which leaves the margin as it was.
\<close>

fun cut_at_diff :: "string \<Rightarrow> string \<Rightarrow> string option" where
  "cut_at_diff (x # xs) (y # ys) =
     (if x \<noteq> y then Some [] else map_option ((#) x) (cut_at_diff xs ys))"
| "cut_at_diff _ _ = None"

definition margin_step :: "string option \<Rightarrow> string \<Rightarrow> string option" where
  "margin_step margin indent =
     (case margin of
        None \<Rightarrow> Some indent
      | Some m \<Rightarrow>
          if prefix m indent then Some m
          else if prefix indent m then Some indent
          else (case cut_at_diff m indent of Some m' \<Rightarrow> Some m' | None \<Rightarrow> Some m))"

definition strip_margin :: "string \<Rightarrow> string \<Rightarrow> string" where
  "strip_margin m l = (if prefix m l then drop (length m) l else l)"

definition dedent :: "string \<Rightarrow> string" where
  "dedent text =
     (let ls = blank_ws_lines (split_nl text) in
      case foldl margin_step None (indents ls) of
        None \<Rightarrow> join_nl ls
      | Some m \<Rightarrow> if m \<noteq> [] then join_nl (map (strip_margin m) ls) else join_nl ls)"

section \<open>The prompt builder\<close>

text \<open>
  \<open>build_prompt\<close> formats the f-string first and dedents the result, so the note is
  part of the text that \<open>dedent\<close> rewrites. The template is given line by line; the two
  \<open>\n\<close> escapes of the source each add an empty line.
\<close>

definition prompt_lines :: "string \<Rightarrow> string list" where
  "prompt_lines prompt_text =
    [ [],
      ''            <|im_start|>system'',
      ''            You are a helpful auditing assistant with extensive aged care nursing experience and care about elderly people<|im_end|>'',
      [],
      ''            <|im_start|>user'',
      ''            Please check this progress note for evidence of falls.'',
      ''            Your response will be in JSON format with 'true' where there is evidence and 'false' where there is not evidence.'',
      ''            Here is the note: '' @ prompt_text,
      ''            Example reply format: ```json{\"falls\": \"true/false\"}```<|im_end|>'',
      [],
      [],
      ''            <|im_start|>assistant'' ]"

definition build_prompt :: "string \<Rightarrow> string" where
  "build_prompt prompt_text = dedent (join_nl (prompt_lines prompt_text))"

section \<open>Python values and exceptions\<close>

text \<open>
  The values that flow through the program: the result of \<open>json.loads\<close> (a dictionary,
  a list, a string, a number, a boolean or \<open>None\<close>) and the diagnostic strings. A
  dictionary is the list of its items in insertion order; a float is identified by its
  \<open>repr\<close>. \<open>PStr\<close> is a string of characters below 256; a string with a character
  above 255 is \<open>PUni\<close>, its code points and the code points of its \<open>repr\<close>.
\<close>

datatype pyval =
    PNone
  | PBool bool
  | PInt int
  | PFloat string
  | PStr string
  | PUni "nat list" "nat list"
  | PList "pyval list"
  | PDict "(string \<times> pyval) list"

text \<open>
  The exceptions that the library calls of the program can raise. The program has one
  handler, for \<open>json.JSONDecodeError\<close>; the argument of that constructor is \<open>str(e)\<close>.
  \<open>UnicodeEncodeError\<close> is raised by a write to the output file.
\<close>

datatype py_error =
    JSONDecodeError string
  | OSError string
  | ValueError string
  | RecursionError
  | UnicodeEncodeError

text \<open>
  \<open>str.isspace\<close> on one character, which is also the class \<open>\s\<close> of the \<open>re\<close> module
  on a \<open>str\<close> pattern and the set of characters that \<open>str.strip()\<close> removes.
\<close>

definition py_isspace :: "char \<Rightarrow> bool" where
  "py_isspace c =
     (let n = (of_char c :: nat)
      in (9 \<le> n \<and> n \<le> 13) \<or> (28 \<le> n \<and> n \<le> 32) \<or> n = 133 \<or> n = 160)"

definition strip :: "string \<Rightarrow> string" where
  "strip s = rev (dropWhile py_isspace (rev (dropWhile py_isspace s)))"

section \<open>The result extractor\<close>

subsection \<open>The regular expression\<close>

text \<open>
  \<open>re.findall(r'```json\s*(\{.*?\})\s*```', llm_output, re.DOTALL)\<close>. Each function
  below matches a part of the pattern at the start of its argument and returns the
  number of characters it consumed.

  \<open>match_close\<close> is \<open>\}\s*```\<close>: the greedy \<open>\s*\<close> is followed by a backquote, which is
  not a space, so taking fewer spaces never helps.
\<close>

definition match_close :: "string \<Rightarrow> nat option" where
  "match_close s =
     (case s of
        [] \<Rightarrow> None
      | c # cs \<Rightarrow>
          if c = CHR ''}'' \<and> prefix ''```'' (dropWhile py_isspace cs)
          then Some (1 + length (takeWhile py_isspace cs) + 3)
          else None)"

text \<open>
  \<open>match_lazy\<close> is \<open>.*?\}\s*```\<close>: the lazy \<open>.*?\<close> takes no character first and one
  more each time the rest of the pattern fails; with \<open>re.DOTALL\<close> the dot matches every
  character. The result is the text taken by \<open>.*?\<close> and the length of the whole match.
\<close>

fun match_lazy :: "string \<Rightarrow> (string \<times> nat) option" where
  "match_lazy [] = None"
| "match_lazy (c # cs) =
     (case match_close (c # cs) of
        Some n \<Rightarrow> Some ([], n)
      | None \<Rightarrow> map_option (\<lambda>(b, n). (c # b, Suc n)) (match_lazy cs))"

text \<open>
  \<open>match_here\<close> is the whole pattern at the start of the text: the group and the length
  of the match.
\<close>

definition match_here :: "string \<Rightarrow> (string \<times> nat) option" where
  "match_here s =
     (if prefix ''```json'' s then
        (case dropWhile py_isspace (drop 7 s) of
           [] \<Rightarrow> None
         | c # cs \<Rightarrow>
             if c = CHR ''{'' then
               (case match_lazy cs of
                  None \<Rightarrow> None
                | Some (b, n) \<Rightarrow>
                    Some (CHR ''{'' # b @ ''}'',
                          7 + length (takeWhile py_isspace (drop 7 s)) + 1 + n))
             else None)
      else None)"

text \<open>
  \<open>findall\<close> tries the pattern at every position from left to right and resumes after
  the end of each match. \<open>scan k s\<close> skips the \<open>k\<close> characters that remain of the last
  match before it tries again.
\<close>

fun scan :: "nat \<Rightarrow> string \<Rightarrow> string list" where
  "scan k [] = []"
| "scan (Suc k) (c # cs) = scan k cs"
| "scan 0 (c # cs) =
     (case match_here (c # cs) of
        Some (g, n) \<Rightarrow> g # scan (n - 1) cs
      | None \<Rightarrow> scan 0 cs)"

definition findall_json :: "string \<Rightarrow> string list" where
  "findall_json s = scan 0 s"

subsection \<open>\<open>parse_llm_output\<close>\<close>

text \<open>
  \<open>json.loads\<close> is library code: it is the parameter \<open>loads\<close>, which gives for a text the
  decoded value or the exception raised. The handler of the source catches
  \<open>JSONDecodeError\<close> only; any other exception leaves the function.
\<close>

type_synonym decoder = "string \<Rightarrow> py_error + pyval"

definition parse_llm_output :: "decoder \<Rightarrow> string \<Rightarrow> py_error + pyval" where
  "parse_llm_output loads llm_output =
     (if llm_output = [] then Inr (PStr ''Error: No response from model'')
      else
        let matches = findall_json llm_output in
        if matches \<noteq> [] then
          (let json_text = last matches in
           case loads json_text of
             Inr v \<Rightarrow> Inr v
           | Inl (JSONDecodeError e) \<Rightarrow> Inr (PStr (''Error parsing JSON: '' @ e))
           | Inl err \<Rightarrow> Inl err)
        else Inr (PStr ''No JSON found in response''))"

subsection \<open>Fenced blocks\<close>

text \<open>
  The words of the specification: a fenced block is the literal \<open>json\<close> fence marker, a
  brace-delimited object and a closing fence, with optional white space around the
  object. \<open>has_fenced_json\<close> says that a text contains one.
\<close>

definition fenced :: "string \<Rightarrow> string \<Rightarrow> string \<Rightarrow> string" where
  "fenced w1 body w2 = ''```json'' @ w1 @ ''{'' @ body @ ''}'' @ w2 @ ''```''"

definition has_fenced_json :: "string \<Rightarrow> bool" where
  "has_fenced_json s =
     (\<exists>pre w1 body w2 post.
        s = pre @ fenced w1 body w2 @ post \<and> list_all py_isspace w1 \<and> list_all py_isspace w2)"

text \<open>
  A text made of fenced blocks, each after a gap, and a tail: the items are the gap,
  the white space before the object, the text between the braces and the white space
  after the object.
\<close>

fun doc :: "(string \<times> string \<times> string \<times> string) list \<Rightarrow> string \<Rightarrow> string" where
  "doc [] tail = tail"
| "doc ((gap, w1, body, w2) # blocks) tail = gap @ fenced w1 body w2 @ doc blocks tail"

text \<open>
  \<open>block_ok\<close>: no backquote in the gap nor in the object.
\<close>

fun block_ok :: "string \<times> string \<times> string \<times> string \<Rightarrow> bool" where
  "block_ok (gap, w1, body, w2) =
     (CHR 0x60 \<notin> set gap \<and> list_all py_isspace w1 \<and> CHR 0x60 \<notin> set body \<and>
      list_all py_isspace w2)"

fun block_object :: "string \<times> string \<times> string \<times> string \<Rightarrow> string" where
  "block_object (gap, w1, body, w2) = CHR ''{'' # body @ ''}''"



subsection \<open>Decoder results used in the examples\<close>

text \<open>
  What \<open>json.loads\<close> of CPython 3.11 returns on the texts of the examples. The last
  line stands for every other text and is not used.
\<close>

definition example_loads :: decoder where
  "example_loads s =
     (if s = ''{\"falls\":\"true\"}'' then Inr (PDict [(''falls'', PStr ''true'')])
      else if s = ''{\"falls\":\"false\"}'' then Inr (PDict [(''falls'', PStr ''false'')])
      else if s = ''{\"falls\": true,}'' then
        Inl (JSONDecodeError
          ''Expecting property name enclosed in double quotes: line 1 column 16 (char 15)'')
      else Inl (JSONDecodeError ''Expecting value: line 1 column 1 (char 0)''))"

subsection \<open>The handler and the texts of the examples\<close>


text \<open>
  \<open>decoder_ok\<close>: on the text that \<open>parse_llm_output\<close> hands to the decoder (if any) the
  decoder returns a value or raises \<open>JSONDecodeError\<close>.
\<close>

definition decoder_ok :: "decoder \<Rightarrow> string \<Rightarrow> bool" where
  "decoder_ok loads llm_output =
     (case findall_json llm_output of
        [] \<Rightarrow> True
      | m # ms \<Rightarrow>
          (case loads (last (m # ms)) of
             Inr v \<Rightarrow> True
           | Inl (JSONDecodeError e) \<Rightarrow> True
           | Inl err \<Rightarrow> False))"


text \<open>
  An object nested 100000 levels deep, on which \<open>json.loads\<close> of CPython raises
  \<open>RecursionError\<close>, and the decoder results of the examples extended by it.
\<close>

definition deep_body :: string where
  "deep_body = ''\"falls\":'' @ replicate 100000 (CHR ''['') @ replicate 100000 (CHR '']'')"

definition deep_loads :: decoder where
  "deep_loads s =
     (if s = CHR ''{'' # deep_body @ ''}'' then Inl RecursionError else example_loads s)"

section \<open>The inference invoker\<close>

text \<open>
  \<open>subprocess.run\<close> starts the external process and waits for it. It is an input of
  the model: for a prompt it gives the \<open>CompletedProcess\<close> or the exception raised when
  the process cannot be started (\<open>OSError\<close>) or the argument list is refused
  (\<open>ValueError\<close>).
\<close>

record completed_process =
  returncode :: int
  stdout :: string
  stderr :: string

definition call_llm :: "(string \<Rightarrow> py_error + completed_process) \<Rightarrow> string \<Rightarrow> py_error + string" where
  "call_llm subprocess_run prompt =
     (case subprocess_run prompt of
        Inl err \<Rightarrow> Inl err
      | Inr result \<Rightarrow>
          if returncode result \<noteq> 0
          then Inr (''Error: LLM execution failed. '' @ stderr result)
          else Inr (if stdout result \<noteq> [] then strip (stdout result) else []))"

section \<open>The batch runner\<close>

text \<open>
  The fields of \<open>AIProcessingCore\<close>, and \<open>__init__\<close>.
\<close>

record core =
  output_path :: string
  results :: "(string \<times> pyval) list"
  rows_processed :: nat
  total_rows :: nat
  cancel_requested :: bool
  processing_done :: bool

text \<open>
  A run is observed through one more field, which the program does not have: the
  prompts handed to \<open>subprocess.run\<close> so far, in order.
\<close>

record run_state = core +
  invoked :: "string list"

definition init :: "string \<Rightarrow> run_state" where
  "init path =
     \<lparr> output_path = path, results = [], rows_processed = 0, total_rows = 0,
       cancel_requested = False, processing_done = False, invoked = [] \<rparr>"

text \<open>
  The environment of a run: \<open>run i\<close> is what \<open>subprocess.run\<close> does when it is called
  for the record with index \<open>i\<close> (each record has at most one call), and \<open>obs i\<close> says
  that the observer has set \<open>cancel_requested\<close> when the loop reaches the head of
  iteration \<open>i\<close>. The observer only ever sets the flag.
\<close>

type_synonym subprocess = "nat \<Rightarrow> string \<Rightarrow> py_error + completed_process"

text \<open>
  The body of the \<open>for\<close> loop after the cancellation check. The result is the exception
  that leaves the body, if any, and the state at that moment.
\<close>

definition process_row ::
  "subprocess \<Rightarrow> decoder \<Rightarrow> nat \<Rightarrow> string list \<Rightarrow> run_state \<Rightarrow> py_error option \<times> run_state" where
  "process_row run loads i row s =
     (let prompt_text = strip (py_join '' '' row) in
      if prompt_text = [] then
        (None, s\<lparr>results := results s @ [([], PStr [])],
                 rows_processed := rows_processed s + 1\<rparr>)
      else
        let prompt_str = build_prompt prompt_text;
            s1 = s\<lparr>invoked := invoked s @ [prompt_str]\<rparr>
        in case call_llm (run i) prompt_str of
             Inl err \<Rightarrow> (Some err, s1)
           | Inr llm_output \<Rightarrow>
               if prefix ''Error: LLM execution failed.'' llm_output then
                 (None, s1\<lparr>results := results s1 @ [(prompt_text, PStr llm_output)],
                           rows_processed := rows_processed s1 + 1\<rparr>)
               else
                 (case parse_llm_output loads llm_output of
                    Inl err \<Rightarrow> (Some err, s1)
                  | Inr parsed_answer \<Rightarrow>
                      (None, s1\<lparr>results := results s1 @ [(prompt_text, parsed_answer)],
                                rows_processed := rows_processed s1 + 1\<rparr>)))"

fun run_loop ::
  "subprocess \<Rightarrow> decoder \<Rightarrow> (nat \<Rightarrow> bool) \<Rightarrow> nat \<Rightarrow> string list list \<Rightarrow> run_state \<Rightarrow>
     py_error option \<times> run_state" where
  "run_loop run loads obs i [] s = (None, s)"
| "run_loop run loads obs i (row # rows) s =
     (let s1 = (if obs i then s\<lparr>cancel_requested := True\<rparr> else s) in
      if cancel_requested s1 then (None, s1)
      else
        (case process_row run loads i row s1 of
           (Some err, s2) \<Rightarrow> (Some err, s2)
         | (None, s2) \<Rightarrow> run_loop run loads obs (Suc i) rows s2))"

definition process_rows ::
  "subprocess \<Rightarrow> decoder \<Rightarrow> (nat \<Rightarrow> bool) \<Rightarrow> string list list \<Rightarrow> run_state \<Rightarrow>
     py_error option \<times> run_state" where
  "process_rows run loads obs rows s =
     (case run_loop run loads obs 0 rows (s\<lparr>total_rows := length rows, rows_processed := 0\<rparr>) of
        (Some err, s') \<Rightarrow> (Some err, s')
      | (None, s') \<Rightarrow> (None, s'\<lparr>processing_done := True\<rparr>))"

text \<open>
  The states at the record boundaries of the loop: the state at the head of each
  iteration and the state in which the loop ends.
\<close>

fun boundaries ::
  "subprocess \<Rightarrow> decoder \<Rightarrow> (nat \<Rightarrow> bool) \<Rightarrow> nat \<Rightarrow> string list list \<Rightarrow> run_state \<Rightarrow>
     run_state list" where
  "boundaries run loads obs i [] s = [s]"
| "boundaries run loads obs i (row # rows) s =
     (let s1 = (if obs i then s\<lparr>cancel_requested := True\<rparr> else s) in
      if cancel_requested s1 then [s1]
      else
        (case process_row run loads i row s1 of
           (Some err, s2) \<Rightarrow> [s1, s2]
         | (None, s2) \<Rightarrow> s1 # boundaries run loads obs (Suc i) rows s2))"

text \<open>
  The states that an observer of a run can see at record boundaries: the state before
  the call, the boundaries of the loop and the state after the call.
\<close>

definition run_trace ::
  "subprocess \<Rightarrow> decoder \<Rightarrow> (nat \<Rightarrow> bool) \<Rightarrow> string list list \<Rightarrow> run_state \<Rightarrow> run_state list" where
  "run_trace run loads obs rows s =
     s # boundaries run loads obs 0 rows (s\<lparr>total_rows := length rows, rows_processed := 0\<rparr>)
       @ [snd (process_rows run loads obs rows s)]"

definition run_inv :: "run_state \<Rightarrow> bool" where
  "run_inv s = (rows_processed s \<le> total_rows s \<and> length (results s) = rows_processed s)"

text \<open>
  What one record contributes: its entry of the result list, or the exception that
  ends the run; and the prompts it hands to the inference process.
\<close>

definition row_text :: "string list \<Rightarrow> string" where
  "row_text row = strip (py_join '' '' row)"

definition row_entry ::
  "subprocess \<Rightarrow> decoder \<Rightarrow> nat \<Rightarrow> string list \<Rightarrow> py_error + (string \<times> pyval)" where
  "row_entry run loads i row =
     (if row_text row = [] then Inr ([], PStr [])
      else
        (case call_llm (run i) (build_prompt (row_text row)) of
           Inl err \<Rightarrow> Inl err
         | Inr llm_output \<Rightarrow>
             if prefix ''Error: LLM execution failed.'' llm_output
             then Inr (row_text row, PStr llm_output)
             else
               (case parse_llm_output loads llm_output of
                  Inl err \<Rightarrow> Inl err
                | Inr parsed_answer \<Rightarrow> Inr (row_text row, parsed_answer))))"

definition row_prompts :: "string list \<Rightarrow> string list" where
  "row_prompts row = (if row_text row = [] then [] else [build_prompt (row_text row)])"

fun entries :: "subprocess \<Rightarrow> decoder \<Rightarrow> nat \<Rightarrow> string list list \<Rightarrow> (string \<times> pyval) list" where
  "entries run loads i [] = []"
| "entries run loads i (row # rows) =
     (case row_entry run loads i row of
        Inl err \<Rightarrow> []
      | Inr entry \<Rightarrow> entry # entries run loads (Suc i) rows)"

fun no_exception :: "subprocess \<Rightarrow> decoder \<Rightarrow> nat \<Rightarrow> string list list \<Rightarrow> bool" where
  "no_exception run loads i [] = True"
| "no_exception run loads i (row # rows) =
     (case row_entry run loads i row of
        Inl err \<Rightarrow> False
      | Inr entry \<Rightarrow> no_exception run loads (Suc i) rows)"

text \<open>
  The contracts of the two library calls under which no exception leaves a run: the
  inference process starts for every prompt, and the decoder raises nothing but
  \<open>JSONDecodeError\<close>.
\<close>

definition decode_errors_only :: "decoder \<Rightarrow> bool" where
  "decode_errors_only loads = (\<forall>t err. loads t = Inl err \<longrightarrow> (\<exists>m. err = JSONDecodeError m))"

definition always_starts :: "subprocess \<Rightarrow> bool" where
  "always_starts run = (\<forall>i p. \<exists>r. run i p = Inr r)"

text \<open>
  \<open>never_set obs n\<close>: the observer has not set the flag at any of the first \<open>n\<close> loop
  heads. \<open>loop_inv s n\<close> is the invariant of the loop with \<open>n\<close> records still to come.
\<close>

definition never_set :: "(nat \<Rightarrow> bool) \<Rightarrow> nat \<Rightarrow> bool" where
  "never_set obs n = list_all (\<lambda>j. \<not> obs j) [0..<n]"

definition loop_inv :: "run_state \<Rightarrow> nat \<Rightarrow> bool" where
  "loop_inv s n = (rows_processed s + n \<le> total_rows s \<and> length (results s) = rows_processed s)"

text \<open>
  The environments and inputs of the examples: an inference process that answers every
  prompt with a fenced \<open>{"falls":"false"}\<close>, one that cannot be started, five records,
  and four records of which the second has an empty joined text.
\<close>

definition ok_run :: subprocess where
  "ok_run i prompt =
     Inr \<lparr> returncode = 0, stdout = ''```json{\"falls\":\"false\"}```'', stderr = [] \<rparr>"

definition no_exe_run :: subprocess where
  "no_exe_run i prompt = Inl (OSError ''[WinError 2] The system cannot find the file specified'')"

definition five_rows :: "string list list" where
  "five_rows = [[''note 1''], [''note 2''], [''note 3''], [''note 4''], [''note 5'']]"

definition four_rows :: "string list list" where
  "four_rows = [[''note 1''], ['''', '' ''], [''note 3''], [''note 4'']]"

section \<open>The result sink\<close>

subsection \<open>Text as code points and its encoding\<close>

text \<open>
  The file is opened with \<open>encoding="utf-8"\<close>, so what reaches it is the UTF-8 encoding
  of the text of each row. The text of a row is a list of code points, since a value
  can hold characters above 255; the encoder refuses the surrogates, for which the
  write raises \<open>UnicodeEncodeError\<close>. A byte of the file is a \<open>char\<close>.
\<close>

definition points :: "string \<Rightarrow> nat list" where
  "points s = map of_char s"

definition utf8_char :: "nat \<Rightarrow> string option" where
  "utf8_char n =
     (if n < 0x80 then Some [char_of n]
      else if n < 0x800 then Some [char_of (0xC0 + n div 64), char_of (0x80 + n mod 64)]
      else if 0xD800 \<le> n \<and> n \<le> 0xDFFF then None
      else if n < 0x10000 then
        Some [char_of (0xE0 + n div 4096), char_of (0x80 + n div 64 mod 64),
              char_of (0x80 + n mod 64)]
      else if n < 0x110000 then
        Some [char_of (0xF0 + n div 262144), char_of (0x80 + n div 4096 mod 64),
              char_of (0x80 + n div 64 mod 64), char_of (0x80 + n mod 64)]
      else None)"

fun encode_utf8 :: "nat list \<Rightarrow> string option" where
  "encode_utf8 [] = Some []"
| "encode_utf8 (n # ns) =
     (case utf8_char n of
        None \<Rightarrow> None
      | Some bytes \<Rightarrow> map_option ((@) bytes) (encode_utf8 ns))"

text \<open>
  The texts that UTF-8 encodes: the code points below \<open>0x110000\<close> that are not
  surrogates.
\<close>

definition encodable :: "nat list \<Rightarrow> bool" where
  "encodable ns = list_all (\<lambda>n. n < 0x110000 \<and> \<not> (0xD800 \<le> n \<and> n \<le> 0xDFFF)) ns"

subsection \<open>\<open>str\<close> of a value\<close>

text \<open>
  \<open>csv.writer\<close> writes a string as it is, \<open>None\<close> as the empty string and every other
  value as \<open>str\<close> of it, which for the values here is \<open>repr\<close>. \<open>repr\<close> of a string picks
  the quote, escapes the quote, the backslash, tab, newline and carriage return, and
  writes the other characters that are not printable as \<open>\xNN\<close>. A string with
  characters above 255 brings its \<open>repr\<close> with it.
\<close>

definition digit_char :: "nat \<Rightarrow> char" where
  "digit_char n = ''0123456789abcdef'' ! n"

fun dec_nat :: "nat \<Rightarrow> string" where
  "dec_nat n = (if n < 10 then [digit_char n] else dec_nat (n div 10) @ [digit_char (n mod 10)])"

definition str_int :: "int \<Rightarrow> string" where
  "str_int i = (if i < 0 then CHR ''-'' # dec_nat (nat (- i)) else dec_nat (nat i))"

definition printable :: "char \<Rightarrow> bool" where
  "printable c =
     (let n = (of_char c :: nat) in (32 \<le> n \<and> n < 127) \<or> (161 \<le> n \<and> n \<noteq> 173))"

definition repr_char :: "char \<Rightarrow> char \<Rightarrow> string" where
  "repr_char quote c =
     (if c = quote \<or> c = CHR 0x5C then [CHR 0x5C, c]
      else if c = CHR 0x09 then [CHR 0x5C, CHR ''t'']
      else if c = CHR 0x0A then [CHR 0x5C, CHR ''n'']
      else if c = CHR 0x0D then [CHR 0x5C, CHR ''r'']
      else if \<not> printable c then
        [CHR 0x5C, CHR ''x'', digit_char (of_char c div 16), digit_char (of_char c mod 16)]
      else [c])"

definition repr_str :: "string \<Rightarrow> string" where
  "repr_str s =
     (let quote = (if CHR 0x27 \<in> set s \<and> CHR 0x22 \<notin> set s then CHR 0x22 else CHR 0x27)
      in quote # concat (map (repr_char quote) s) @ [quote])"

fun join_text :: "nat list \<Rightarrow> nat list list \<Rightarrow> nat list" where
  "join_text sep [] = []"
| "join_text sep [x] = x"
| "join_text sep (x # y # ys) = x @ sep @ join_text sep (y # ys)"

fun py_repr :: "pyval \<Rightarrow> nat list" where
  "py_repr PNone = points ''None''"
| "py_repr (PBool b) = points (if b then ''True'' else ''False'')"
| "py_repr (PInt i) = points (str_int i)"
| "py_repr (PFloat r) = points r"
| "py_repr (PStr s) = points (repr_str s)"
| "py_repr (PUni ps r) = r"
| "py_repr (PList xs) = points ''['' @ join_text (points '', '') (map py_repr xs) @ points '']''"
| "py_repr (PDict items) =
     points ''{'' @
     join_text (points '', '')
       (map (\<lambda>item. points (repr_str (fst item)) @ points '': '' @ py_repr (snd item)) items) @
     points ''}''"

subsection \<open>\<open>csv.writer\<close>\<close>

text \<open>
  The writer of the default dialect: fields joined by commas, a field quoted when it
  holds a comma, a double quote, a carriage return or a newline, double quotes doubled
  inside a quoted field, every row ended by carriage return and newline. A row of one
  empty field is written as two double quotes.
\<close>

definition cell_text :: "pyval \<Rightarrow> nat list" where
  "cell_text v =
     (case v of PNone \<Rightarrow> [] | PStr s \<Rightarrow> points s | PUni ps r \<Rightarrow> ps | _ \<Rightarrow> py_repr v)"

definition special :: "nat \<Rightarrow> bool" where
  "special n = (n = 0x2C \<or> n = 0x22 \<or> n = 0x0D \<or> n = 0x0A)"

definition csv_field :: "nat list \<Rightarrow> nat list" where
  "csv_field s =
     (if list_ex special s
      then 0x22 # concat (map (\<lambda>n. if n = 0x22 then [n, n] else [n]) s) @ [0x22]
      else s)"

definition writerow :: "pyval list \<Rightarrow> nat list" where
  "writerow row =
     (let fields = map (\<lambda>v. csv_field (cell_text v)) row
      in (if fields = [[]] then [0x22, 0x22] else join_text [0x2C] fields)
         @ [0x0D, 0x0A])"

subsection \<open>\<open>save_results\<close>\<close>

text \<open>
  The files are a map from paths to their bytes; \<open>can_open path\<close> says whether
  \<open>open(path, "w")\<close> succeeds. \<open>writer.writerow\<close> hands the text of a row to the file,
  which encodes it (the file is opened with \<open>newline=""\<close>, so the text is not changed
  before). \<open>write_rows\<close> is the sequence of \<open>writerow\<close> calls inside the \<open>with\<close>
  statement: the first row that cannot be encoded raises, and the \<open>with\<close> statement
  closes the file with the rows written before.
\<close>

definition final_answer :: "pyval \<Rightarrow> pyval" where
  "final_answer response =
     (case response of
        PDict items \<Rightarrow> (case map_of items ''falls'' of Some v \<Rightarrow> v | None \<Rightarrow> response)
      | _ \<Rightarrow> response)"

fun write_rows :: "string \<Rightarrow> pyval list list \<Rightarrow> py_error option \<times> string" where
  "write_rows written [] = (None, written)"
| "write_rows written (row # rows) =
     (case encode_utf8 (writerow row) of
        None \<Rightarrow> (Some UnicodeEncodeError, written)
      | Some bytes \<Rightarrow> write_rows (written @ bytes) rows)"

definition save_results ::
  "(string \<Rightarrow> bool) \<Rightarrow> 'a core_scheme \<Rightarrow> (string \<rightharpoonup> string) \<Rightarrow> py_error option \<times> (string \<rightharpoonup> string)" where
  "save_results can_open c files =
     (if output_path c = [] then (None, files)
      else if \<not> can_open (output_path c) then (Some (OSError ''cannot open the output file''), files)
      else
        (case write_rows []
                ([PStr ''Progres note'', PStr ''Falls Detected?''] #
                 map (\<lambda>(prompt, response). [PStr prompt, final_answer response]) (results c)) of
           (err, written) \<Rightarrow> (err, files(output_path c \<mapsto> written))))"

text \<open>
  The words of the specification for the second column: the value of the \<open>falls\<close> key
  when the verdict is a structured object that has this key, the whole verdict
  otherwise; and the file as the header row followed by one row per pair, encoded.
  \<open>report\<close> is \<open>None\<close> when the rows cannot all be encoded.
\<close>

fun is_object :: "pyval \<Rightarrow> bool" where
  "is_object (PDict items) = True"
| "is_object _ = False"

fun keys :: "pyval \<Rightarrow> string list" where
  "keys (PDict items) = map fst items"
| "keys _ = []"

fun value_at :: "pyval \<Rightarrow> string \<Rightarrow> pyval" where
  "value_at (PDict items) k = (case map_of items k of Some v \<Rightarrow> v | None \<Rightarrow> PNone)"
| "value_at _ k = PNone"

definition second_column :: "pyval \<Rightarrow> pyval" where
  "second_column verdict =
     (if is_object verdict \<and> ''falls'' \<in> set (keys verdict) then value_at verdict ''falls''
      else verdict)"

definition report :: "(string \<times> pyval) list \<Rightarrow> string option" where
  "report pairs =
     encode_utf8 (concat (map writerow
       ([PStr ''Progres note'', PStr ''Falls Detected?''] #
        map (\<lambda>pair. [PStr (fst pair), second_column (snd pair)]) pairs)))"

definition example_results :: "(string \<times> pyval) list" where
  "example_results =
     [(''note A'', PDict [(''falls'', PStr ''true'')]),
      (''note B'', PStr ''No JSON found in response'')]"

text \<open>
  The result lists whose second column can be encoded: the text that \<open>csv.writer\<close>
  makes of the value written there has no surrogate. The first column is a text of
  the input, which has none.
\<close>

definition encodable_results :: "(string \<times> pyval) list \<Rightarrow> bool" where
  "encodable_results pairs =
     list_all (\<lambda>pair. encodable (cell_text (second_column (snd pair)))) pairs"

text \<open>
  A verdict that holds a lone surrogate. The model's answer is a fenced block with the
  object \<open>{"falls": "\ud83d"}\<close>, the escape written with a backslash; \<open>json.loads\<close> of
  CPython 3.11 decodes it to a dictionary whose value is the one character \<open>U+D83D\<close>,
  of which \<open>repr\<close> is the escape between single quotes.
\<close>

definition surrogate_body :: string where
  "surrogate_body = ''\"falls\": \"'' @ CHR 0x5C # ''ud83d\"''"

definition surrogate_verdict :: pyval where
  "surrogate_verdict =
     PDict [(''falls'', PUni [0xD83D] (points (CHR 0x27 # CHR 0x5C # ''ud83d'' @ [CHR 0x27])))]"

definition surrogate_loads :: decoder where
  "surrogate_loads s =
     (if s = CHR ''{'' # surrogate_body @ ''}'' then Inr surrogate_verdict else example_loads s)"

definition surrogate_results :: "(string \<times> pyval) list" where
  "surrogate_results =
     [(''note A'', PDict [(''falls'', PStr ''true'')]),
      (''note B'', surrogate_verdict)]"

section \<open>Properties of the prompt builder\<close>

lemma split_nl_not_Nil: "split_nl s \<noteq> []"
  by (induction s) (auto split: list.splits)

lemma split_nl_single: "CHR 0x0A \<notin> set l \<Longrightarrow> split_nl l = [l]"
  by (induction l) auto

lemma split_nl_append:
  "CHR 0x0A \<notin> set l \<Longrightarrow> split_nl (l @ CHR 0x0A # rest) = l # split_nl rest"
  by (induction l) auto

lemma split_join:
  "list_all (\<lambda>l. CHR 0x0A \<notin> set l) ls \<Longrightarrow> ls \<noteq> [] \<Longrightarrow> split_nl (join_nl ls) = ls"
  unfolding join_nl_def
  by (induction "[CHR 0x0A]" ls rule: py_join.induct)
     (auto simp: split_nl_single split_nl_append)

lemma prompt_lines_no_nl:
  "CHR 0x0A \<notin> set t \<Longrightarrow> list_all (\<lambda>l. CHR 0x0A \<notin> set l) (prompt_lines t)"
  by (simp add: prompt_lines_def)

lemma blank_prompt_lines: "blank_ws_lines (prompt_lines t) = prompt_lines t"
  by (simp add: blank_ws_lines_def prompt_lines_def whitespace_only_def is_blank_def)

lemma margin_prompt_lines:
  "foldl margin_step None (indents (prompt_lines t)) = Some ''            ''"
  by (simp add: indents_def prompt_lines_def is_blank_def margin_step_def)

text \<open>
  For a note of one line the prompt is the template with its indentation removed and
  the note in its place: the note is there verbatim, after the system and user markers
  and before the assistant marker.
\<close>

lemma build_prompt_one_line:
  assumes "CHR 0x0A \<notin> set t"
  shows "build_prompt t =
    ''\<newline><|im_start|>system\<newline>You are a helpful auditing assistant with extensive aged care nursing experience and care about elderly people<|im_end|>\<newline>\<newline><|im_start|>user\<newline>Please check this progress note for evidence of falls.\<newline>Your response will be in JSON format with 'true' where there is evidence and 'false' where there is not evidence.\<newline>Here is the note: ''
    @ t @
    ''\<newline>Example reply format: ```json{\"falls\": \"true/false\"}```<|im_end|>\<newline>\<newline>\<newline><|im_start|>assistant''"
proof -
  have s: "split_nl (join_nl (prompt_lines t)) = prompt_lines t"
    using prompt_lines_no_nl [OF assms] by (intro split_join) (simp_all add: prompt_lines_def)
  have "build_prompt t = join_nl (map (strip_margin ''            '') (prompt_lines t))"
    by (simp add: build_prompt_def dedent_def s blank_prompt_lines margin_prompt_lines)
  also have "\<dots> = ''\<newline><|im_start|>system\<newline>You are a helpful auditing assistant with extensive aged care nursing experience and care about elderly people<|im_end|>\<newline>\<newline><|im_start|>user\<newline>Please check this progress note for evidence of falls.\<newline>Your response will be in JSON format with 'true' where there is evidence and 'false' where there is not evidence.\<newline>Here is the note: ''
    @ t @
    ''\<newline>Example reply format: ```json{\"falls\": \"true/false\"}```<|im_end|>\<newline>\<newline>\<newline><|im_start|>assistant''"
    by (simp add: prompt_lines_def strip_margin_def join_nl_def)
  finally show ?thesis .
qed

text \<open>
  C10 (the prompt contains the note verbatim for every non-empty note). The note goes
  through \<open>dedent\<close> with the rest of the formatted text, so a note with a line of
  blanks loses that line's blanks: for the three-line note \<open>a\<close>, one space, \<open>b\<close> the
  prompt does not contain the note.
\<close>

theorem build_prompt_blank_line_not_verbatim:
  "\<not> sublist ''a\<newline> \<newline>b'' (build_prompt ''a\<newline> \<newline>b'')"
  by code_simp

section \<open>Properties of the regular expression\<close>

lemma scan_skip: "scan k s = scan 0 (drop k s)"
  by (induction k s rule: scan.induct) auto

lemma match_here_no_tick: "c \<noteq> CHR 0x60 \<Longrightarrow> match_here (c # cs) = None"
  by (simp add: match_here_def)

lemma scan_tickfree_prefix: "CHR 0x60 \<notin> set pre \<Longrightarrow> scan 0 (pre @ s) = scan 0 s"
  by (induction pre) (auto simp: match_here_no_tick)

lemma tick_not_space: "\<not> py_isspace (CHR 0x60)"
  by (simp add: py_isspace_def)

lemma brace_not_space: "\<not> py_isspace (CHR ''}'')" "\<not> py_isspace (CHR ''{'')"
  by (simp_all add: py_isspace_def)

lemma dropWhile_space_tickfree:
  "CHR 0x60 \<notin> set b \<Longrightarrow> \<not> prefix ''```'' (dropWhile py_isspace (b @ CHR ''}'' # t))"
  by (induction b) (auto simp: brace_not_space)

lemma match_close_tickfree:
  "CHR 0x60 \<notin> set b \<Longrightarrow> match_close (c # b @ CHR ''}'' # t) = None"
  by (simp add: match_close_def dropWhile_space_tickfree)

lemma match_close_hit:
  "list_all py_isspace w \<Longrightarrow> match_close (CHR ''}'' # w @ ''```'' @ rest) = Some (length w + 4)"
  by (simp add: match_close_def dropWhile_append3 takeWhile_append1 list_all_iff tick_not_space
      takeWhile_tail dropWhile_append)

lemma match_lazy_tickfree:
  "CHR 0x60 \<notin> set b \<Longrightarrow> list_all py_isspace w \<Longrightarrow>
   match_lazy (b @ CHR ''}'' # w @ ''```'' @ rest) = Some (b, length b + length w + 4)"
proof (induction b)
  case Nil
  then show ?case using match_close_hit [of w rest] by simp
next
  case (Cons c b)
  then show ?case by (simp add: match_close_tickfree)
qed

lemma dropWhile_space_then:
  "list_all py_isspace w \<Longrightarrow> \<not> py_isspace c \<Longrightarrow> dropWhile py_isspace (w @ c # t) = c # t"
  by (induction w) auto

lemma takeWhile_space_then:
  "list_all py_isspace w \<Longrightarrow> \<not> py_isspace c \<Longrightarrow> takeWhile py_isspace (w @ c # t) = w"
  by (induction w) auto

lemma match_here_fenced:
  assumes "CHR 0x60 \<notin> set b" "list_all py_isspace w1" "list_all py_isspace w2"
  shows "match_here (fenced w1 b w2 @ rest) =
           Some (CHR ''{'' # b @ ''}'', length (fenced w1 b w2))"
proof -
  have "match_lazy (b @ CHR ''}'' # w2 @ ''```'' @ rest) = Some (b, length b + length w2 + 4)"
    using assms by (rule_tac match_lazy_tickfree) 
  then show ?thesis
    using assms
    by (simp add: match_here_def fenced_def dropWhile_space_then takeWhile_space_then brace_not_space)
qed

lemma scan_fenced:
  assumes "CHR 0x60 \<notin> set b" "list_all py_isspace w1" "list_all py_isspace w2"
  shows "scan 0 (fenced w1 b w2 @ rest) = (CHR ''{'' # b @ ''}'') # scan 0 rest"
proof -
  obtain c cs where f: "fenced w1 b w2 = c # cs"
    by (simp add: fenced_def)
  have "scan 0 (c # cs @ rest) = (CHR ''{'' # b @ ''}'') # scan (length cs) (cs @ rest)"
    using match_here_fenced [OF assms, of rest] f by simp
  then show ?thesis
    using f by (simp add: scan_skip [of "length cs"])
qed

lemma match_lazy_some:
  "list_all py_isspace w \<Longrightarrow> \<exists>r. match_lazy (b @ CHR ''}'' # w @ ''```'' @ rest) = Some r"
proof (induction b)
  case Nil
  then show ?case using match_close_hit [of w rest] by simp
next
  case (Cons c b)
  then obtain r where "match_lazy (b @ CHR ''}'' # w @ ''```'' @ rest) = Some r"
    by blast
  then show ?case
    by (cases "match_close (c # b @ CHR ''}'' # w @ ''```'' @ rest)") auto
qed

lemma match_here_some:
  assumes "list_all py_isspace w1" "list_all py_isspace w2"
  shows "\<exists>r. match_here (fenced w1 b w2 @ post) = Some r"
proof -
  obtain r where "match_lazy (b @ CHR ''}'' # w2 @ ''```'' @ post) = Some r"
    using match_lazy_some [OF assms(2)] by blast
  then show ?thesis
    using assms(1)
    by (cases r) (simp add: match_here_def fenced_def dropWhile_space_then brace_not_space)
qed

lemma match_here_Nil: "match_here [] = None"
  by (simp add: match_here_def)

lemma scan_finds:
  "match_here t = Some r \<Longrightarrow> k \<le> length pre \<Longrightarrow> scan k (pre @ t) \<noteq> []"
proof (induction pre arbitrary: k)
  case Nil
  then show ?case
    by (cases t; cases r) (auto simp: match_here_Nil)
next
  case (Cons c pre)
  show ?case
  proof (cases k)
    case 0
    then show ?thesis
      using Cons.IH [OF Cons.prems(1), of 0]
      by (cases "match_here (c # pre @ t)") auto
  next
    case (Suc k')
    then show ?thesis
      using Cons.IH [OF Cons.prems(1), of k'] Cons.prems(2) by simp
  qed
qed

lemma split_spaces:
  "\<exists>w. s = w @ dropWhile py_isspace s \<and> list_all py_isspace w"
  by (rule exI [of _ "takeWhile py_isspace s"]) (auto simp: list_all_iff dest: set_takeWhileD)

lemma match_close_shape:
  assumes "match_close s = Some n"
  shows "\<exists>w rest. s = CHR ''}'' # w @ ''```'' @ rest \<and> list_all py_isspace w"
proof -
  from assms obtain cs where s: "s = CHR ''}'' # cs"
    and p: "prefix ''```'' (dropWhile py_isspace cs)"
    by (auto simp: match_close_def split: list.splits if_splits)
  from p obtain rest where r: "dropWhile py_isspace cs = ''```'' @ rest"
    by (auto simp: prefix_def)
  obtain w where "cs = w @ dropWhile py_isspace cs" "list_all py_isspace w"
    using split_spaces by blast
  with s r show ?thesis by auto
qed

lemma match_lazy_shape:
  "match_lazy s = Some (b, n) \<Longrightarrow>
   \<exists>w rest. s = b @ CHR ''}'' # w @ ''```'' @ rest \<and> list_all py_isspace w"
proof (induction s arbitrary: b n)
  case Nil
  then show ?case by simp
next
  case (Cons c s)
  show ?case
  proof (cases "match_close (c # s)")
    case (Some m)
    with Cons.prems have "b = []" by simp
    with match_close_shape [OF Some] show ?thesis by simp
  next
    case None
    with Cons.prems obtain b' n' where "match_lazy s = Some (b', n')" "b = c # b'"
      by auto
    with Cons.IH [of b' n'] show ?thesis by auto
  qed
qed

lemma match_here_shape:
  assumes "match_here t = Some (g, n)"
  shows "\<exists>w1 b w2 post. t = fenced w1 b w2 @ post \<and> list_all py_isspace w1 \<and>
           list_all py_isspace w2 \<and> g = CHR ''{'' # b @ ''}''"
proof -
  from assms obtain u where t: "t = ''```json'' @ u"
    by (auto simp: match_here_def prefix_def split: if_splits)
  with assms obtain cs b m where d: "dropWhile py_isspace u = CHR ''{'' # cs"
    and l: "match_lazy cs = Some (b, m)" and g: "g = CHR ''{'' # b @ ''}''"
    by (auto simp: match_here_def split: list.splits if_splits option.splits)
  obtain w1 where w1: "u = w1 @ dropWhile py_isspace u" "list_all py_isspace w1"
    using split_spaces by blast
  from match_lazy_shape [OF l] obtain w2 rest
    where c: "cs = b @ CHR ''}'' # w2 @ ''```'' @ rest" "list_all py_isspace w2"
    by blast
  have "t = fenced w1 b w2 @ rest"
    using t w1(1) d c(1) by (simp add: fenced_def)
  with w1(2) c(2) g show ?thesis by blast
qed

lemma scan_found:
  "scan k s \<noteq> [] \<Longrightarrow> \<exists>pre t g n. s = pre @ t \<and> match_here t = Some (g, n)"
proof (induction k s rule: scan.induct)
  case (1 k)
  then show ?case by simp
next
  case (2 k c cs)
  then obtain pre t g n where "cs = pre @ t" "match_here t = Some (g, n)"
    by auto
  then have "c # cs = (c # pre) @ t" by simp
  with \<open>match_here t = Some (g, n)\<close> show ?case by blast
next
  case (3 c cs)
  show ?case
  proof (cases "match_here (c # cs)")
    case None
    with 3 obtain pre t g n where "cs = pre @ t" "match_here t = Some (g, n)"
      by auto
    then have "c # cs = (c # pre) @ t" by simp
    with \<open>match_here t = Some (g, n)\<close> show ?thesis by blast
  next
    case (Some r)
    then have "c # cs = [] @ (c # cs) \<and> match_here (c # cs) = Some (fst r, snd r)"
      by simp
    then show ?thesis by blast
  qed
qed

lemma findall_json_empty_iff: "findall_json s = [] \<longleftrightarrow> \<not> has_fenced_json s"
proof
  assume e: "findall_json s = []"
  show "\<not> has_fenced_json s"
  proof
    assume "has_fenced_json s"
    then obtain pre w1 body w2 post where s: "s = pre @ fenced w1 body w2 @ post"
      and w: "list_all py_isspace w1" "list_all py_isspace w2"
      by (auto simp: has_fenced_json_def)
    obtain r where "match_here (fenced w1 body w2 @ post) = Some r"
      using match_here_some [OF w] by blast
    from scan_finds [OF this, of 0 pre] have "scan 0 s \<noteq> []" using s by simp
    with e show False by (simp add: findall_json_def)
  qed
next
  assume n: "\<not> has_fenced_json s"
  show "findall_json s = []"
  proof (rule ccontr)
    assume "findall_json s \<noteq> []"
    then obtain pre t g n where s: "s = pre @ t" and m: "match_here t = Some (g, n)"
      using scan_found [of 0 s] by (auto simp: findall_json_def)
    from match_here_shape [OF m] obtain w1 b w2 post
      where "t = fenced w1 b w2 @ post" "list_all py_isspace w1" "list_all py_isspace w2"
      by blast
    with s have "has_fenced_json s"
      unfolding has_fenced_json_def by blast
    with n show False by simp
  qed
qed

lemma scan_tickfree: "CHR 0x60 \<notin> set s \<Longrightarrow> scan 0 s = []"
  using scan_tickfree_prefix [of s "[]"] by simp

lemma findall_json_doc:
  "list_all block_ok blocks \<Longrightarrow> CHR 0x60 \<notin> set tail \<Longrightarrow>
   findall_json (doc blocks tail) = map block_object blocks"
proof (induction blocks)
  case Nil
  then show ?case by (simp add: findall_json_def scan_tickfree)
next
  case (Cons blk blocks)
  obtain gap w1 body w2 where blk: "blk = (gap, w1, body, w2)"
    by (cases blk) auto
  from Cons.prems blk have ok: "CHR 0x60 \<notin> set gap" "list_all py_isspace w1"
    "CHR 0x60 \<notin> set body" "list_all py_isspace w2" and rest: "list_all block_ok blocks"
    by simp_all
  have "scan 0 (gap @ fenced w1 body w2 @ doc blocks tail) =
          scan 0 (fenced w1 body w2 @ doc blocks tail)"
    using ok(1) by (rule scan_tickfree_prefix)
  also have "\<dots> = (CHR ''{'' # body @ ''}'') # scan 0 (doc blocks tail)"
    using ok(3) ok(2) ok(4) by (rule scan_fenced)
  finally show ?case
    using Cons.IH [OF rest Cons.prems(2)] blk by (simp add: findall_json_def)
qed


lemma findall_json_one:
  assumes "CHR 0x60 \<notin> set pre" "CHR 0x60 \<notin> set body" "CHR 0x60 \<notin> set post"
  shows "findall_json (pre @ fenced [] body [] @ post) = [CHR ''{'' # body @ ''}'']"
  using findall_json_doc [of "[(pre, [], body, [])]" post] assms by simp

lemma fenced_not_Nil: "fenced w1 body w2 \<noteq> []"
  by (simp add: fenced_def)











section \<open>Properties of the result extractor\<close>

text \<open>
  C6: for every non-empty extractor input that contains no JSON-fenced code block,
  \<open>parse_llm_output\<close> returns exactly the diagnostic string "No JSON found in response".
\<close>

theorem parse_llm_output_no_fence:
  "llm_output \<noteq> [] \<Longrightarrow> \<not> has_fenced_json llm_output \<Longrightarrow>
   parse_llm_output loads llm_output = Inr (PStr ''No JSON found in response'')"
  using findall_json_empty_iff [of llm_output] by (simp add: parse_llm_output_def)

theorem parse_llm_output_no_fence_witness:
  "''The note shows no fall.'' \<noteq> [] \<and> \<not> has_fenced_json ''The note shows no fall.'' \<and>
   parse_llm_output example_loads ''The note shows no fall.'' =
     Inr (PStr ''No JSON found in response'')"
proof -
  have "scan 0 (''The note shows no fall.'' @ []) = scan 0 []"
    by (rule scan_tickfree_prefix) simp
  then have h: "\<not> has_fenced_json ''The note shows no fall.''"
    using findall_json_empty_iff [of "''The note shows no fall.''"]
    by (simp add: findall_json_def)
  show ?thesis
    using h parse_llm_output_no_fence [of "''The note shows no fall.''" example_loads]
    by simp
qed




text \<open>
  C4 as amended: for every input on which the decoder returns a value or raises
  \<open>JSONDecodeError\<close>, \<open>parse_llm_output\<close> returns a verdict; and a fenced block whose
  object the decoder rejects with \<open>JSONDecodeError\<close> gives the diagnostic string
  "Error parsing JSON: " followed by the decoder's message. The malformed object
  \<open>{"falls": true,}\<close> of the claim is the witness.
\<close>

theorem parse_llm_output_returns:
  "(decoder_ok loads llm_output \<longrightarrow> (\<exists>v. parse_llm_output loads llm_output = Inr v)) \<and>
   (CHR 0x60 \<notin> set pre \<and> CHR 0x60 \<notin> set body \<and> CHR 0x60 \<notin> set post \<and>
    loads (CHR ''{'' # body @ ''}'') = Inl (JSONDecodeError msg) \<longrightarrow>
      parse_llm_output loads (pre @ fenced [] body [] @ post) =
        Inr (PStr (''Error parsing JSON: '' @ msg)))"
proof
  show "decoder_ok loads llm_output \<longrightarrow> (\<exists>v. parse_llm_output loads llm_output = Inr v)"
    by (auto simp: decoder_ok_def parse_llm_output_def Let_def
        split: list.splits sum.splits py_error.splits)
next
  show "CHR 0x60 \<notin> set pre \<and> CHR 0x60 \<notin> set body \<and> CHR 0x60 \<notin> set post \<and>
    loads (CHR ''{'' # body @ ''}'') = Inl (JSONDecodeError msg) \<longrightarrow>
      parse_llm_output loads (pre @ fenced [] body [] @ post) =
        Inr (PStr (''Error parsing JSON: '' @ msg))"
    by (simp add: parse_llm_output_def findall_json_one fenced_not_Nil)
qed

theorem parse_llm_output_returns_witness:
  "decoder_ok example_loads ''```json{\"falls\": true,}```'' \<and>
   (\<exists>v. parse_llm_output example_loads ''```json{\"falls\": true,}```'' = Inr v) \<and>
   CHR 0x60 \<notin> set [] \<and> CHR 0x60 \<notin> set ''\"falls\": true,'' \<and>
   example_loads ''{\"falls\": true,}'' =
     Inl (JSONDecodeError
       ''Expecting property name enclosed in double quotes: line 1 column 16 (char 15)'') \<and>
   parse_llm_output example_loads ''```json{\"falls\": true,}```'' =
     Inr (PStr ''Error parsing JSON: Expecting property name enclosed in double quotes: line 1 column 16 (char 15)'')"
proof -
  have f: "findall_json ''```json{\"falls\": true,}```'' = [''{\"falls\": true,}'']"
    using findall_json_one [of "[]" "''\"falls\": true,''" "[]"] by (simp add: fenced_def)
  have l: "example_loads ''{\"falls\": true,}'' =
     Inl (JSONDecodeError
       ''Expecting property name enclosed in double quotes: line 1 column 16 (char 15)'')"
    by (simp add: example_loads_def)
  have d: "decoder_ok example_loads ''```json{\"falls\": true,}```''"
    by (simp add: decoder_ok_def f l)
  show ?thesis
    using d l
      parse_llm_output_returns [of example_loads "''```json{\"falls\": true,}```''" "[]"
        "''\"falls\": true,''" "[]"
        "''Expecting property name enclosed in double quotes: line 1 column 16 (char 15)''"]
    by (simp add: fenced_def)
qed

text \<open>
  C4 as stated (no exception for any input) fails: the handler catches
  \<open>JSONDecodeError\<close> only, so the \<open>RecursionError\<close> that the decoder raises on a deeply
  nested object leaves \<open>parse_llm_output\<close>.
\<close>

theorem parse_llm_output_raises_counterexample:
  "parse_llm_output deep_loads (''```json{'' @ deep_body @ ''}```'') = Inl RecursionError"
proof -
  have t: "CHR 0x60 \<notin> set deep_body"
    by (auto simp: deep_body_def)
  have "findall_json ([] @ fenced [] deep_body [] @ []) = [CHR ''{'' # deep_body @ ''}'']"
    using t by (intro findall_json_one) simp_all
  then have f: "findall_json (''```json{'' @ deep_body @ ''}```'') = [CHR ''{'' # deep_body @ ''}'']"
    by (simp add: fenced_def)
  show ?thesis
    using f by (simp add: parse_llm_output_def deep_loads_def)
qed

section \<open>Properties of the batch runner\<close>

lemma process_row_eq:
  "process_row run loads i row s =
     (case row_entry run loads i row of
        Inl err \<Rightarrow> (Some err, s\<lparr>invoked := invoked s @ row_prompts row\<rparr>)
      | Inr entry \<Rightarrow>
          (None, s\<lparr>results := results s @ [entry],
                   rows_processed := Suc (rows_processed s),
                   invoked := invoked s @ row_prompts row\<rparr>))"
  by (simp add: process_row_def row_entry_def row_text_def row_prompts_def Let_def
      split: sum.splits)

lemma run_loop_prefix:
  "\<not> cancel_requested s \<Longrightarrow> (\<And>j. i \<le> j \<Longrightarrow> j < i + length pre \<Longrightarrow> \<not> obs j) \<Longrightarrow>
   no_exception run loads i pre \<Longrightarrow>
   run_loop run loads obs i (pre @ rest) s =
     run_loop run loads obs (i + length pre) rest
       (s\<lparr>results := results s @ entries run loads i pre,
          rows_processed := rows_processed s + length pre,
          invoked := invoked s @ concat (map row_prompts pre)\<rparr>)"
proof (induction pre arbitrary: i s)
  case Nil
  then show ?case by simp
next
  case (Cons row pre)
  from Cons.prems(3) obtain entry where e: "row_entry run loads i row = Inr entry"
    and n: "no_exception run loads (Suc i) pre"
    by (auto split: sum.splits)
  have o: "\<not> obs i" using Cons.prems(2) [of i] by simp
  let ?s2 = "s\<lparr>results := results s @ [entry], rows_processed := Suc (rows_processed s),
               invoked := invoked s @ row_prompts row\<rparr>"
  have c: "\<not> cancel_requested ?s2" using Cons.prems(1) by simp
  have q: "\<And>j. Suc i \<le> j \<Longrightarrow> j < Suc i + length pre \<Longrightarrow> \<not> obs j"
    using Cons.prems(2) by simp
  have "run_loop run loads obs i ((row # pre) @ rest) s =
          run_loop run loads obs (Suc i) (pre @ rest) ?s2"
    using Cons.prems(1) o e by (simp add: process_row_eq)
  also have "\<dots> = run_loop run loads obs (Suc i + length pre) rest
       (?s2\<lparr>results := results ?s2 @ entries run loads (Suc i) pre,
          rows_processed := rows_processed ?s2 + length pre,
          invoked := invoked ?s2 @ concat (map row_prompts pre)\<rparr>)"
    using c q n by (rule Cons.IH)
  finally show ?case using e by simp
qed

lemma length_entries:
  "no_exception run loads i rows \<Longrightarrow> length (entries run loads i rows) = length rows"
  by (induction rows arbitrary: i) (auto split: sum.splits)

lemma row_entry_text: "row_entry run loads i row = Inr entry \<Longrightarrow> fst entry = row_text row"
  by (auto simp: row_entry_def split: if_splits sum.splits)

lemma map_fst_entries:
  "no_exception run loads i rows \<Longrightarrow> map fst (entries run loads i rows) = map row_text rows"
  by (induction rows arbitrary: i) (auto split: sum.splits dest: row_entry_text)

lemma never_setD: "never_set obs n \<Longrightarrow> j < n \<Longrightarrow> \<not> obs j"
  by (simp add: never_set_def list_all_iff)

lemma run_loop_cancel_head:
  "obs i \<Longrightarrow> run_loop run loads obs i (row # rows) s = (None, s\<lparr>cancel_requested := True\<rparr>)"
  by simp

lemma process_rows_all:
  assumes "\<not> cancel_requested s" and "never_set obs (length rows)"
    and "no_exception run loads 0 rows"
  shows "process_rows run loads obs rows s =
           (None, s\<lparr>results := results s @ entries run loads 0 rows,
                    rows_processed := length rows, total_rows := length rows,
                    processing_done := True,
                    invoked := invoked s @ concat (map row_prompts rows)\<rparr>)"
proof -
  let ?s0 = "s\<lparr>total_rows := length rows, rows_processed := 0\<rparr>"
  have a: "run_loop run loads obs 0 (rows @ []) ?s0 =
        run_loop run loads obs (0 + length rows) []
          (?s0\<lparr>results := results ?s0 @ entries run loads 0 rows,
               rows_processed := rows_processed ?s0 + length rows,
               invoked := invoked ?s0 @ concat (map row_prompts rows)\<rparr>)"
    using assms by (intro run_loop_prefix) (auto dest: never_setD)
  show ?thesis
    using a by (simp add: process_rows_def)
qed

lemma process_row_inv:
  assumes "loop_inv s (Suc n)" and "process_row run loads i row s = (r, s2)"
  shows "run_inv s2 \<and> rows_processed s \<le> rows_processed s2 \<and> (r = None \<longrightarrow> loop_inv s2 n)"
  using assms
  by (auto simp: process_row_eq loop_inv_def run_inv_def split: sum.splits)

lemma loop_inv_run_inv: "loop_inv s n \<Longrightarrow> run_inv s"
  by (simp add: loop_inv_def run_inv_def)

lemma boundaries_inv:
  "loop_inv s (length rows) \<Longrightarrow>
   list_all run_inv (boundaries run loads obs i rows s) \<and>
   sorted (map rows_processed (boundaries run loads obs i rows s)) \<and>
   list_all (\<lambda>t. rows_processed s \<le> rows_processed t) (boundaries run loads obs i rows s)"
proof (induction rows arbitrary: i s)
  case Nil
  then show ?case by (simp add: loop_inv_run_inv)
next
  case (Cons row rows)
  let ?s1 = "if obs i then s\<lparr>cancel_requested := True\<rparr> else s"
  have i1: "loop_inv ?s1 (Suc (length rows))"
    using Cons.prems by (simp add: loop_inv_def)
  have r1: "rows_processed ?s1 = rows_processed s" by simp
  show ?case
  proof (cases "cancel_requested ?s1")
    case True
    then show ?thesis
      using i1 r1 by (simp add: Let_def loop_inv_run_inv del: r1)
  next
    case False
    obtain r s2 where p: "process_row run loads i row ?s1 = (r, s2)"
      by (cases "process_row run loads i row ?s1") auto
    note f = process_row_inv [OF i1 p]
    show ?thesis
    proof (cases r)
      case None
      with f have "loop_inv s2 (length rows)" by simp
      from Cons.IH [OF this, of "Suc i"]
      have b: "list_all run_inv (boundaries run loads obs (Suc i) rows s2)"
        "sorted (map rows_processed (boundaries run loads obs (Suc i) rows s2))"
        "list_all (\<lambda>t. rows_processed s2 \<le> rows_processed t)
           (boundaries run loads obs (Suc i) rows s2)"
        by simp_all
      have le: "rows_processed s \<le> rows_processed s2" using f r1 by simp
      have c: "list_all (\<lambda>t. rows_processed s \<le> rows_processed t)
           (boundaries run loads obs (Suc i) rows s2)"
        using b(3) le by (auto simp: list_all_iff)
      have bs: "boundaries run loads obs i (row # rows) s =
                  ?s1 # boundaries run loads obs (Suc i) rows s2"
        using False p None by (simp add: Let_def)
      show ?thesis
        unfolding bs using b(1) b(2) c i1 r1
        by (auto simp: loop_inv_run_inv list_all_iff simp del: r1)
    next
      case (Some err)
      have bs: "boundaries run loads obs i (row # rows) s = [?s1, s2]"
        using False p Some by (simp add: Let_def)
      show ?thesis
        unfolding bs using f i1 r1 by (auto simp: loop_inv_run_inv simp del: r1)
    qed
  qed
qed

lemma boundaries_not_Nil: "boundaries run loads obs i rows s \<noteq> []"
  by (cases rows) (auto simp: Let_def split: prod.splits option.splits)

lemma run_loop_last:
  "snd (run_loop run loads obs i rows s) = last (boundaries run loads obs i rows s)"
proof (induction rows arbitrary: i s)
  case Nil
  then show ?case by simp
next
  case (Cons row rows)
  then show ?case
    by (auto simp: Let_def boundaries_not_Nil split: prod.splits option.splits)
qed

lemma sorted_le_last:
  "sorted (xs :: nat list) \<Longrightarrow> x \<in> set xs \<Longrightarrow> x \<le> last xs"
  by (induction xs) (auto split: if_splits)

lemma final_state:
  "rows_processed (snd (process_rows run loads obs rows s)) =
     rows_processed (last (boundaries run loads obs 0 rows
        (s\<lparr>total_rows := length rows, rows_processed := 0\<rparr>))) \<and>
   run_inv (snd (process_rows run loads obs rows s)) =
     run_inv (last (boundaries run loads obs 0 rows
        (s\<lparr>total_rows := length rows, rows_processed := 0\<rparr>)))"
  using run_loop_last [of run loads obs 0 rows "s\<lparr>total_rows := length rows, rows_processed := 0\<rparr>"]
  by (auto simp: process_rows_def run_inv_def split: prod.splits option.splits)

lemma parse_example_text:
  "parse_llm_output example_loads ''```json{\"falls\":\"false\"}```'' =
     Inr (PDict [(''falls'', PStr ''false'')])"
proof -
  have "findall_json ([] @ fenced [] ''\"falls\":\"false\"'' [] @ []) = [''{\"falls\":\"false\"}'']"
    using findall_json_one [of "[]" "''\"falls\":\"false\"''" "[]"] by simp
  then have "findall_json ''```json{\"falls\":\"false\"}```'' = [''{\"falls\":\"false\"}'']"
    by (simp add: fenced_def)
  then show ?thesis
    by (simp add: parse_llm_output_def example_loads_def)
qed

lemma row_entry_ok_run:
  "row_text row \<noteq> [] \<Longrightarrow>
   row_entry ok_run example_loads i row = Inr (row_text row, PDict [(''falls'', PStr ''false'')])"
proof -
  have s: "strip ''```json{\"falls\":\"false\"}```'' = ''```json{\"falls\":\"false\"}```''"
    by (simp add: strip_def py_isspace_def)
  assume "row_text row \<noteq> []"
  then show ?thesis
    using parse_example_text s
    by (simp add: row_entry_def call_llm_def ok_run_def)
qed

lemma row_text_notes:
  "row_text [''note 1''] = ''note 1''" "row_text [''note 2''] = ''note 2''"
  "row_text [''note 3''] = ''note 3''" "row_text [''note 4''] = ''note 4''"
  "row_text [''note 5''] = ''note 5''" "row_text ['''', '' ''] = []"
  by (simp_all add: row_text_def strip_def py_isspace_def)

lemma row_entry_empty: "row_text row = [] \<Longrightarrow> row_entry run loads i row = Inr ([], PStr [])"
  by (simp add: row_entry_def)

lemma row_entry_failed:
  "row_text row \<noteq> [] \<Longrightarrow> run i (build_prompt (row_text row)) = Inr r \<Longrightarrow> returncode r \<noteq> 0 \<Longrightarrow>
   row_entry run loads i row =
     Inr (row_text row, PStr (''Error: LLM execution failed. '' @ stderr r))"
  by (simp add: row_entry_def call_llm_def)

lemma row_entry_extracted:
  "row_text row \<noteq> [] \<Longrightarrow> run i (build_prompt (row_text row)) = Inr r \<Longrightarrow> returncode r = 0 \<Longrightarrow>
   \<not> prefix ''Error: LLM execution failed.'' (strip (stdout r)) \<Longrightarrow>
   parse_llm_output loads (strip (stdout r)) = Inr v \<Longrightarrow>
   row_entry run loads i row = Inr (row_text row, v)"
  by (auto simp: row_entry_def call_llm_def strip_def)

lemma parse_llm_output_decoder:
  assumes "decode_errors_only loads"
  shows "\<exists>v. parse_llm_output loads out = Inr v"
proof (cases "loads (last (findall_json out))")
  case (Inl err)
  with assms obtain m where "err = JSONDecodeError m"
    unfolding decode_errors_only_def by blast
  with Inl show ?thesis by (simp add: parse_llm_output_def Let_def)
next
  case (Inr v)
  then show ?thesis by (simp add: parse_llm_output_def Let_def)
qed

lemma row_entry_env:
  assumes "always_starts run" and "decode_errors_only loads"
  shows "\<exists>entry. row_entry run loads i row = Inr entry"
proof -
  obtain r where r: "run i (build_prompt (row_text row)) = Inr r"
    using assms(1) unfolding always_starts_def by blast
  obtain v where v: "parse_llm_output loads
      (if stdout r \<noteq> [] then strip (stdout r) else []) = Inr v"
    using parse_llm_output_decoder [OF assms(2)] by blast
  show ?thesis
    using r v by (simp add: row_entry_def call_llm_def)
qed

lemma no_exception_env:
  assumes "always_starts run" and "decode_errors_only loads"
  shows "no_exception run loads i rows"
proof (induction rows arbitrary: i)
  case Nil
  then show ?case by simp
next
  case (Cons row rows)
  obtain entry where "row_entry run loads i row = Inr entry"
    using row_entry_env [OF assms] by blast
  with Cons show ?case by simp
qed

text \<open>
  C1: if the observer sets \<open>cancel_requested\<close> after exactly \<open>k\<close> records have been
  processed and before record \<open>k + 1\<close> is attempted (\<open>k\<close> less than the number of
  records), \<open>process_rows\<close> stops without attempting another record: it returns with
  \<open>rows_processed = k\<close>, \<open>processing_done\<close> set, exactly \<open>k\<close> new results, which are the
  results of running the first \<open>k\<close> records to completion, and no prompt handed to the
  inference process beyond those of the first \<open>k\<close> records. The witness is the run of
  five records cancelled after the third.
\<close>

theorem process_rows_cancelled:
  assumes "k < length rows" and "\<not> cancel_requested s" and "never_set obs k" and "obs k"
    and "no_exception run loads 0 (take k rows)"
  shows "process_rows run loads obs rows s =
           (None, s\<lparr>results := results s @ entries run loads 0 (take k rows),
                    rows_processed := k, total_rows := length rows,
                    cancel_requested := True, processing_done := True,
                    invoked := invoked s @ concat (map row_prompts (take k rows))\<rparr>) \<and>
         length (entries run loads 0 (take k rows)) = k \<and>
         length (results (snd (process_rows run loads obs rows s))) = length (results s) + k \<and>
         results (snd (process_rows run loads obs rows s)) =
           results (snd (process_rows run loads (\<lambda>j. False) (take k rows) s))"
proof -
  let ?s0 = "s\<lparr>total_rows := length rows, rows_processed := 0\<rparr>"
  let ?t0 = "s\<lparr>total_rows := length (take k rows), rows_processed := 0\<rparr>"
  obtain row rest where d: "drop k rows = row # rest"
    using assms(1) by (cases "drop k rows") auto
  have l: "length (take k rows) = k" using assms(1) by simp
  have a: "run_loop run loads obs 0 (take k rows @ drop k rows) ?s0 =
        run_loop run loads obs (0 + length (take k rows)) (drop k rows)
          (?s0\<lparr>results := results ?s0 @ entries run loads 0 (take k rows),
               rows_processed := rows_processed ?s0 + length (take k rows),
               invoked := invoked ?s0 @ concat (map row_prompts (take k rows))\<rparr>)"
    using assms(2) assms(3) assms(5) l
    by (intro run_loop_prefix) (auto dest: never_setD)
  have b: "run_loop run loads (\<lambda>j. False) 0 (take k rows @ []) ?t0 =
        run_loop run loads (\<lambda>j. False) (0 + length (take k rows)) []
          (?t0\<lparr>results := results ?t0 @ entries run loads 0 (take k rows),
               rows_processed := rows_processed ?t0 + length (take k rows),
               invoked := invoked ?t0 @ concat (map row_prompts (take k rows))\<rparr>)"
    using assms(2) assms(5) by (intro run_loop_prefix) auto
  have "run_loop run loads obs 0 rows ?s0 =
          run_loop run loads obs 0 (take k rows @ drop k rows) ?s0"
    by simp
  also note a
  also have "run_loop run loads obs (0 + length (take k rows)) (drop k rows)
          (?s0\<lparr>results := results ?s0 @ entries run loads 0 (take k rows),
               rows_processed := rows_processed ?s0 + length (take k rows),
               invoked := invoked ?s0 @ concat (map row_prompts (take k rows))\<rparr>) =
        (None, s\<lparr>results := results s @ entries run loads 0 (take k rows),
                    rows_processed := k, total_rows := length rows,
                    cancel_requested := True,
                    invoked := invoked s @ concat (map row_prompts (take k rows))\<rparr>)"
    using assms(4) l by (simp add: d)
  finally have p: "process_rows run loads obs rows s =
           (None, s\<lparr>results := results s @ entries run loads 0 (take k rows),
                    rows_processed := k, total_rows := length rows,
                    cancel_requested := True, processing_done := True,
                    invoked := invoked s @ concat (map row_prompts (take k rows))\<rparr>)"
    by (simp add: process_rows_def)
  have q: "results (snd (process_rows run loads (\<lambda>j. False) (take k rows) s)) =
             results s @ entries run loads 0 (take k rows)"
    using b by (simp add: process_rows_def)
  show ?thesis
    using p q length_entries [OF assms(5)] l by simp
qed

theorem process_rows_cancelled_witness:
  "3 < length five_rows \<and> \<not> cancel_requested (init ''out.csv'') \<and>
   never_set (\<lambda>j. 3 \<le> j) 3 \<and> (3::nat) \<le> 3 \<and>
   no_exception ok_run example_loads 0 (take 3 five_rows) \<and>
   rows_processed (snd (process_rows ok_run example_loads (\<lambda>j. 3 \<le> j) five_rows (init ''out.csv''))) = 3 \<and>
   length (results (snd (process_rows ok_run example_loads (\<lambda>j. 3 \<le> j) five_rows (init ''out.csv'')))) = 3 \<and>
   processing_done (snd (process_rows ok_run example_loads (\<lambda>j. 3 \<le> j) five_rows (init ''out.csv'')))"
proof -
  have h1: "3 < length five_rows" by (simp add: five_rows_def)
  have h2: "\<not> cancel_requested (init ''out.csv'')" by (simp add: init_def)
  have h3: "never_set (\<lambda>j. 3 \<le> j) 3" by (auto simp: never_set_def list_all_iff)
  have h4: "(\<lambda>j. (3::nat) \<le> j) 3" by simp
  have h5: "no_exception ok_run example_loads 0 (take 3 five_rows)"
    by (simp add: five_rows_def row_entry_ok_run row_text_notes)
  show ?thesis
    using h1 h2 h3 h5
      process_rows_cancelled [of 3 five_rows "init ''out.csv''" "\<lambda>j. 3 \<le> j" ok_run example_loads,
        OF h1 h2 h3 h4 h5]
    by (simp add: init_def)
qed

text \<open>
  C2: throughout a run started on a freshly constructed core, at every record
  boundary \<open>rows_processed\<close> does not exceed \<open>total_rows\<close> and equals the length of the
  result list, and \<open>rows_processed\<close> never decreases from one boundary to the next.
  This holds for every environment, also when the run is cancelled or ended by an
  exception.
\<close>

theorem run_invariant:
  "list_all run_inv (run_trace run loads obs rows (init path)) \<and>
   sorted (map rows_processed (run_trace run loads obs rows (init path)))"
proof -
  let ?s0 = "(init path)\<lparr>total_rows := length rows, rows_processed := 0\<rparr>"
  let ?bs = "boundaries run loads obs 0 rows ?s0"
  let ?f = "snd (process_rows run loads obs rows (init path))"
  have "loop_inv ?s0 (length rows)"
    by (simp add: loop_inv_def init_def)
  from boundaries_inv [OF this, of run loads obs 0]
  have b: "list_all run_inv ?bs" "sorted (map rows_processed ?bs)" by simp_all
  have n: "?bs \<noteq> []" by (rule boundaries_not_Nil)
  have l: "last ?bs \<in> set ?bs" using n by simp
  have f1: "rows_processed ?f = rows_processed (last ?bs)"
    and f2: "run_inv ?f = run_inv (last ?bs)"
    using final_state [of run loads obs rows "init path"] by simp_all
  have i: "run_inv ?f" using f2 b(1) l by (simp add: list_all_iff)
  have "rows_processed (last ?bs) = last (map rows_processed ?bs)"
    using n by (simp add: last_map)
  then have s: "\<forall>x \<in> set (map rows_processed ?bs). x \<le> rows_processed ?f"
    using sorted_le_last [OF b(2)] f1 by simp
  have a: "list_all run_inv (run_trace run loads obs rows (init path))"
    using b(1) i by (simp add: run_trace_def init_def run_inv_def)
  have z: "rows_processed (init path) = 0" by (simp add: init_def)
  have "sorted (map rows_processed (run_trace run loads obs rows (init path)))"
    using b(2) s z by (simp add: run_trace_def sorted_append)
  with a show ?thesis by simp
qed

text \<open>
  C3 as amended: if \<open>cancel_requested\<close> is never set and no library call raises an
  exception other than \<open>JSONDecodeError\<close> while the records are processed
  (\<open>no_exception\<close>, which holds when the inference process starts for every prompt and
  the decoder raises nothing but \<open>JSONDecodeError\<close>: \<open>no_exception_env\<close>),
  \<open>process_rows\<close> returns normally, has appended exactly one entry per
  record in input order, and has set \<open>rows_processed\<close> and \<open>total_rows\<close> to the number
  of records and \<open>processing_done\<close> to true. The entry of a record is given by
  \<open>row_entry\<close>: the empty placeholder for an empty text, the failure string of the
  invoker for a non-zero exit code, the extractor's verdict otherwise.
\<close>

theorem process_rows_completes:
  assumes "\<not> cancel_requested s" and "never_set obs (length rows)"
    and "no_exception run loads 0 rows"
  shows "process_rows run loads obs rows s =
           (None, s\<lparr>results := results s @ entries run loads 0 rows,
                    rows_processed := length rows, total_rows := length rows,
                    processing_done := True,
                    invoked := invoked s @ concat (map row_prompts rows)\<rparr>) \<and>
         length (entries run loads 0 rows) = length rows \<and>
         map fst (entries run loads 0 rows) = map row_text rows"
  using process_rows_all [OF assms] length_entries [OF assms(3)] map_fst_entries [OF assms(3)]
  by simp

theorem process_rows_completes_witness:
  "\<not> cancel_requested (init ''out.csv'') \<and> never_set (\<lambda>j. False) (length four_rows) \<and>
   no_exception ok_run example_loads 0 four_rows \<and>
   fst (process_rows ok_run example_loads (\<lambda>j. False) four_rows (init ''out.csv'')) = None \<and>
   results (snd (process_rows ok_run example_loads (\<lambda>j. False) four_rows (init ''out.csv''))) =
     [(''note 1'', PDict [(''falls'', PStr ''false'')]), ([], PStr []),
      (''note 3'', PDict [(''falls'', PStr ''false'')]),
      (''note 4'', PDict [(''falls'', PStr ''false'')])] \<and>
   rows_processed (snd (process_rows ok_run example_loads (\<lambda>j. False) four_rows (init ''out.csv''))) = 4 \<and>
   total_rows (snd (process_rows ok_run example_loads (\<lambda>j. False) four_rows (init ''out.csv''))) = 4 \<and>
   processing_done (snd (process_rows ok_run example_loads (\<lambda>j. False) four_rows (init ''out.csv'')))"
proof -
  have h1: "\<not> cancel_requested (init ''out.csv'')" by (simp add: init_def)
  have h2: "never_set (\<lambda>j. False) (length four_rows)" by (simp add: never_set_def list_all_iff)
  have e: "row_entry ok_run example_loads i ['''', '' ''] = Inr ([], PStr [])" for i
    by (simp add: row_entry_def row_text_notes)
  have h3: "no_exception ok_run example_loads 0 four_rows"
    by (simp add: four_rows_def row_entry_ok_run row_text_notes e)
  have en: "entries ok_run example_loads 0 four_rows =
     [(''note 1'', PDict [(''falls'', PStr ''false'')]), ([], PStr []),
      (''note 3'', PDict [(''falls'', PStr ''false'')]),
      (''note 4'', PDict [(''falls'', PStr ''false'')])]"
    by (simp add: four_rows_def row_entry_ok_run row_text_notes e)
  have len: "length four_rows = 4" by (simp add: four_rows_def)
  show ?thesis
    using h1 h2 h3 en len
      process_rows_completes [of "init ''out.csv''" "\<lambda>j. False" four_rows ok_run example_loads,
        OF h1 h2 h3]
    by (simp add: init_def)
qed

text \<open>
  C3 as stated (the run never raises) fails: \<open>call_llm\<close> has no handler around
  \<open>subprocess.run\<close>, so when the inference process cannot be started the \<open>OSError\<close>
  leaves \<open>process_rows\<close>, no result is recorded and \<open>processing_done\<close> stays false.
\<close>

theorem process_rows_raises_counterexample:
  "fst (process_rows no_exe_run example_loads (\<lambda>j. False) [[''note 1'']] (init ''out.csv'')) =
     Some (OSError ''[WinError 2] The system cannot find the file specified'') \<and>
   \<not> processing_done
       (snd (process_rows no_exe_run example_loads (\<lambda>j. False) [[''note 1'']] (init ''out.csv''))) \<and>
   results (snd (process_rows no_exe_run example_loads (\<lambda>j. False) [[''note 1'']] (init ''out.csv''))) = []"
proof -
  have "row_entry no_exe_run example_loads 0 [''note 1''] =
          Inl (OSError ''[WinError 2] The system cannot find the file specified'')"
    by (simp add: row_entry_def row_text_notes call_llm_def no_exe_run_def)
  then show ?thesis
    by (simp add: process_rows_def process_row_eq init_def)
qed

text \<open>
  C7: for every record whose joined text is empty, the loop body appends the empty
  placeholder, adds one to \<open>rows_processed\<close> and hands no prompt to the inference
  process; the loop then goes on with the next record, whatever the inference process
  would have done. The witness is the second of four records; in the whole run of the
  four records only the three other records reach the inference process.
\<close>

theorem process_row_empty:
  "row_text row = [] \<Longrightarrow>
   process_row run loads i row s =
     (None, s\<lparr>results := results s @ [([], PStr [])],
              rows_processed := rows_processed s + 1\<rparr>) \<and>
   invoked (snd (process_row run loads i row s)) = invoked s \<and>
   (\<not> cancel_requested s \<and> \<not> obs i \<longrightarrow>
      run_loop run loads obs i (row # rows) s =
        run_loop run loads obs (Suc i) rows
          (s\<lparr>results := results s @ [([], PStr [])],
             rows_processed := rows_processed s + 1\<rparr>))"
  by (simp add: process_row_def row_text_def)

theorem process_row_empty_witness:
  "row_text ['''', '' ''] = [] \<and>
   process_row ok_run example_loads 1 ['''', '' '']
     ((init ''out.csv'')\<lparr>total_rows := 4, rows_processed := 1,
        results := [(''note 1'', PDict [(''falls'', PStr ''false'')])],
        invoked := [build_prompt ''note 1'']\<rparr>) =
     (None, (init ''out.csv'')\<lparr>total_rows := 4, rows_processed := 2,
        results := [(''note 1'', PDict [(''falls'', PStr ''false'')]), ([], PStr [])],
        invoked := [build_prompt ''note 1'']\<rparr>) \<and>
   invoked (snd (process_rows ok_run example_loads (\<lambda>j. False) four_rows (init ''out.csv''))) =
     [build_prompt ''note 1'', build_prompt ''note 3'', build_prompt ''note 4'']"
proof -
  have h: "row_text ['''', '' ''] = []" by (simp add: row_text_notes)
  have h1: "\<not> cancel_requested (init ''out.csv'')" by (simp add: init_def)
  have h2: "never_set (\<lambda>j. False) (length four_rows)" by (simp add: never_set_def list_all_iff)
  have e: "row_entry ok_run example_loads i ['''', '' ''] = Inr ([], PStr [])" for i
    by (simp add: row_entry_def row_text_notes)
  have h3: "no_exception ok_run example_loads 0 four_rows"
    by (simp add: four_rows_def row_entry_ok_run row_text_notes e)
  have p: "concat (map row_prompts four_rows) =
     [build_prompt ''note 1'', build_prompt ''note 3'', build_prompt ''note 4'']"
    by (simp add: four_rows_def row_prompts_def row_text_notes)
  have i: "invoked (snd (process_rows ok_run example_loads (\<lambda>j. False) four_rows (init ''out.csv''))) =
     [build_prompt ''note 1'', build_prompt ''note 3'', build_prompt ''note 4'']"
    using process_rows_all [OF h1 h2 h3] p by (simp add: init_def)
  show ?thesis
    using h i
      process_row_empty [of "['''', '' '']" ok_run example_loads 1
        "(init ''out.csv'')\<lparr>total_rows := 4, rows_processed := 1,
           results := [(''note 1'', PDict [(''falls'', PStr ''false'')])],
           invoked := [build_prompt ''note 1'']\<rparr>", OF h]
    by (simp add: init_def)
qed

section \<open>Properties of the result sink\<close>

lemma final_answer_second_column: "final_answer v = second_column v"
proof (cases v)
  case (PDict items)
  show ?thesis
  proof (cases "map_of items ''falls''")
    case None
    then have "''falls'' \<notin> fst ` set items" by (simp add: map_of_eq_None_iff)
    with None PDict show ?thesis by (simp add: final_answer_def second_column_def)
  next
    case (Some w)
    then have "''falls'' \<in> fst ` set items" by (metis map_of_eq_None_iff option.distinct(1))
    with Some PDict show ?thesis by (simp add: final_answer_def second_column_def)
  qed
qed (simp_all add: final_answer_def second_column_def)

lemma sink_rows:
  "map (\<lambda>(prompt, response). [PStr prompt, final_answer response]) pairs =
   map (\<lambda>pair. [PStr (fst pair), second_column (snd pair)]) pairs"
  by (induction pairs) (auto simp: final_answer_second_column)

lemma utf8_char_None_iff:
  "(utf8_char n = None) = (\<not> (n < 0x110000 \<and> \<not> (0xD800 \<le> n \<and> n \<le> 0xDFFF)))"
  by (simp add: utf8_char_def)

lemma encode_utf8_None_iff: "(encode_utf8 ns = None) = (\<not> encodable ns)"
proof (induction ns)
  case Nil
  show ?case by (simp add: encodable_def)
next
  case (Cons n ns)
  show ?case
  proof (cases "utf8_char n")
    case None
    with utf8_char_None_iff [of n] show ?thesis by (simp add: encodable_def)
  next
    case (Some b)
    with utf8_char_None_iff [of n] Cons show ?thesis by (simp add: encodable_def)
  qed
qed

lemma encode_utf8_append:
  "encode_utf8 (a @ b) =
     (case encode_utf8 a of
        None \<Rightarrow> None
      | Some x \<Rightarrow> map_option ((@) x) (encode_utf8 b))"
proof (induction a)
  case Nil
  show ?case by (cases "encode_utf8 b") simp_all
next
  case (Cons n a)
  then show ?case
    by (cases "utf8_char n"; cases "encode_utf8 a"; cases "encode_utf8 b") simp_all
qed

lemma write_rows_encoded:
  "encode_utf8 (concat (map writerow rows)) = Some text \<Longrightarrow>
   write_rows written rows = (None, written @ text)"
proof (induction rows arbitrary: written "text")
  case Nil
  then show ?case by simp
next
  case (Cons row rows)
  from Cons.prems obtain x y where x: "encode_utf8 (writerow row) = Some x"
    and y: "encode_utf8 (concat (map writerow rows)) = Some y" and t: "text = x @ y"
    by (auto simp: encode_utf8_append split: option.splits)
  from Cons.IH [OF y, of "written @ x"] x t show ?case by simp
qed

lemma write_rows_error:
  "encode_utf8 (concat (map writerow rows)) = None \<Longrightarrow>
   fst (write_rows written rows) = Some UnicodeEncodeError"
proof (induction rows arbitrary: written)
  case Nil
  then show ?case by simp
next
  case (Cons row rows)
  show ?case
  proof (cases "encode_utf8 (writerow row)")
    case None
    then show ?thesis by simp
  next
    case (Some x)
    with Cons.prems have "encode_utf8 (concat (map writerow rows)) = None"
      by (simp add: encode_utf8_append)
    with Cons.IH [of "written @ x"] Some show ?thesis by simp
  qed
qed

lemma encodable_points: "encodable (points s)"
proof -
  have "(of_char c :: nat) < 256" for c
    by (rule of_char_mod_256 [of c, THEN subst]) simp
  then have "(of_char c :: nat) < 0x110000 \<and> \<not> (0xD800 \<le> (of_char c :: nat))" for c
    using less_trans [of "of_char c :: nat" 256] by (simp add: not_le)
  then show ?thesis
    by (simp add: encodable_def points_def list_all_iff)
qed

lemma encodable_append: "encodable (a @ b) = (encodable a \<and> encodable b)"
  by (simp add: encodable_def)

lemma encodable_join_text:
  "encodable sep \<Longrightarrow> encodable (join_text sep xs) = list_all encodable xs"
  by (induction sep xs rule: join_text.induct) (simp_all add: encodable_append, simp add: encodable_def)

lemma encodable_csv_field: "encodable (csv_field s) = encodable s"
  by (auto simp: csv_field_def encodable_def list_all_iff)

lemma csv_field_Nil: "(csv_field s = []) = (s = [])"
  by (auto simp: csv_field_def)

lemma encodable_writerow:
  "encodable (writerow row) = list_all (\<lambda>v. encodable (cell_text v)) row"
proof (cases "map (\<lambda>v. csv_field (cell_text v)) row = [[]]")
  case True
  then obtain v where "row = [v]" and "cell_text v = []"
    by (auto simp: csv_field_Nil)
  then show ?thesis
    by (simp add: writerow_def csv_field_def encodable_def)
next
  case False
  have s: "encodable [0x2C]" by (simp add: encodable_def)
  have "encodable (writerow row) = list_all encodable (map (\<lambda>v. csv_field (cell_text v)) row)"
    using False encodable_join_text [OF s]
    by (simp add: writerow_def encodable_append) (simp add: encodable_def)
  then show ?thesis
    by (simp add: list_all_iff encodable_csv_field)
qed

lemma encodable_concat_map:
  "encodable (concat (map f xs)) = list_all (\<lambda>x. encodable (f x)) xs"
  by (induction xs) (simp_all add: encodable_append, simp add: encodable_def)

lemma encodable_cell_PStr: "encodable (cell_text (PStr s))"
  by (simp add: cell_text_def encodable_points)

lemma report_None_iff: "(report pairs = None) = (\<not> encodable_results pairs)"
proof -
  have "encodable (concat (map writerow
          ([PStr ''Progres note'', PStr ''Falls Detected?''] #
           map (\<lambda>pair. [PStr (fst pair), second_column (snd pair)]) pairs))) =
        encodable_results pairs"
    by (simp add: encodable_append encodable_concat_map encodable_writerow
        encodable_cell_PStr encodable_results_def list_all_iff)
  then show ?thesis
    by (simp add: report_def encode_utf8_None_iff)
qed

lemma save_results_written:
  assumes "output_path c \<noteq> []" "can_open (output_path c)"
  shows "report (results c) = Some text \<Longrightarrow>
           save_results can_open c files = (None, files(output_path c \<mapsto> text))"
    and "report (results c) = None \<Longrightarrow>
           fst (save_results can_open c files) = Some UnicodeEncodeError"
proof -
  let ?rows = "[PStr ''Progres note'', PStr ''Falls Detected?''] #
     map (\<lambda>pair. [PStr (fst pair), second_column (snd pair)]) (results c)"
  show "save_results can_open c files = (None, files(output_path c \<mapsto> text))"
    if "report (results c) = Some text"
  proof -
    from that have "write_rows [] ?rows = (None, [] @ text)"
      unfolding report_def by (rule write_rows_encoded)
    with assms show ?thesis by (simp add: save_results_def sink_rows)
  qed
  show "fst (save_results can_open c files) = Some UnicodeEncodeError"
    if "report (results c) = None"
  proof -
    from that have "fst (write_rows [] ?rows) = Some UnicodeEncodeError"
      unfolding report_def by (rule write_rows_error)
    then obtain out where "write_rows [] ?rows = (Some UnicodeEncodeError, out)"
      by (cases "write_rows [] ?rows") simp
    with assms show ?thesis by (simp add: save_results_def sink_rows)
  qed
qed

lemma utf8_char_ascii: "of_char c < (128::nat) \<Longrightarrow> utf8_char (of_char c) = Some [c]"
  by (simp add: utf8_char_def)

lemma encode_utf8_ascii:
  "list_all (\<lambda>c. of_char c < (128::nat)) s \<Longrightarrow> encode_utf8 (points s) = Some s"
  by (induction s) (simp_all add: points_def utf8_char_ascii)

lemma writerow_header:
  "writerow [PStr ''Progres note'', PStr ''Falls Detected?''] =
     points (''Progres note,Falls Detected?'' @ [CHR 0x0D, CHR 0x0A])"
  by (simp add: writerow_def csv_field_def cell_text_def special_def points_def)

lemma writerow_note_A:
  "writerow [PStr ''note A'', PStr ''true''] = points (''note A,true'' @ [CHR 0x0D, CHR 0x0A])"
  by (simp add: writerow_def csv_field_def cell_text_def special_def points_def)

lemma report_example:
  "report example_results =
     Some (''Progres note,Falls Detected?'' @ [CHR 0x0D, CHR 0x0A] @
           ''note A,true'' @ [CHR 0x0D, CHR 0x0A] @
           ''note B,No JSON found in response'' @ [CHR 0x0D, CHR 0x0A])"
proof -
  have "concat (map writerow
          ([PStr ''Progres note'', PStr ''Falls Detected?''] #
           map (\<lambda>pair. [PStr (fst pair), second_column (snd pair)]) example_results)) =
        points (''Progres note,Falls Detected?'' @ [CHR 0x0D, CHR 0x0A] @
           ''note A,true'' @ [CHR 0x0D, CHR 0x0A] @
           ''note B,No JSON found in response'' @ [CHR 0x0D, CHR 0x0A])"
    by (simp add: example_results_def second_column_def writerow_def csv_field_def
        cell_text_def special_def points_def)
  then show ?thesis
    by (simp only: report_def) (rule encode_utf8_ascii, simp)
qed

lemma save_results_no_path:
  "output_path c = [] \<Longrightarrow> save_results can_open c files = (None, files)"
  by (simp add: save_results_def)

text \<open>
  C8 as amended: for every result list whose second column can be encoded as UTF-8
  (\<open>encodable_results\<close>), when the output path is set and the file can be opened,
  \<open>save_results\<close> raises nothing and the file holds the encoding of the header row
  \<open>Progres note,Falls Detected?\<close> followed by one row per pair in list order, whose
  second column is the value of the \<open>falls\<close> key when the verdict is a structured
  object with that key and the whole verdict otherwise (\<open>report\<close>). The witness is the
  example of the specification: the file has the three lines
  \<open>Progres note,Falls Detected?\<close>, \<open>note A,true\<close> and
  \<open>note B,No JSON found in response\<close>.

  The file is opened with \<open>encoding="utf-8"\<close>, and a verdict can hold a lone surrogate:
  the extractor returns one for a fenced block with the object \<open>{"falls": "\ud83d"}\<close>.
  For the result list of the counterexample, whose second verdict is this one, the
  write of the second row raises \<open>UnicodeEncodeError\<close>, which leaves \<open>save_results\<close>,
  and the file holds the header row and the first row only.
\<close>

theorem save_results_report:
  "output_path c \<noteq> [] \<Longrightarrow> can_open (output_path c) \<Longrightarrow> encodable_results (results c) \<Longrightarrow>
   \<exists>text. report (results c) = Some text \<and>
          save_results can_open c files = (None, files(output_path c \<mapsto> text))"
  using report_None_iff [of "results c"] save_results_written(1) [of c can_open _ files]
  by (cases "report (results c)") simp_all

theorem save_results_report_witness:
  "output_path ((init ''out.csv'')\<lparr>results := example_results\<rparr>) \<noteq> [] \<and>
   (\<lambda>path. True) (output_path ((init ''out.csv'')\<lparr>results := example_results\<rparr>)) \<and>
   encodable_results (results ((init ''out.csv'')\<lparr>results := example_results\<rparr>)) \<and>
   save_results (\<lambda>path. True) ((init ''out.csv'')\<lparr>results := example_results\<rparr>) Map.empty =
     (None, [''out.csv'' \<mapsto>
        ''Progres note,Falls Detected?'' @ [CHR 0x0D, CHR 0x0A] @
        ''note A,true'' @ [CHR 0x0D, CHR 0x0A] @
        ''note B,No JSON found in response'' @ [CHR 0x0D, CHR 0x0A]])"
proof -
  have h1: "output_path ((init ''out.csv'')\<lparr>results := example_results\<rparr>) \<noteq> []"
    by (simp add: init_def)
  have h2: "(\<lambda>path. True) (output_path ((init ''out.csv'')\<lparr>results := example_results\<rparr>))"
    by simp
  have h3: "encodable_results (results ((init ''out.csv'')\<lparr>results := example_results\<rparr>))"
    using report_None_iff [of example_results] report_example by simp
  show ?thesis
    using h1 h3
      save_results_report [of "(init ''out.csv'')\<lparr>results := example_results\<rparr>"
        "\<lambda>path. True" Map.empty, OF h1 h2 h3]
      report_example
    by (simp add: init_def)
qed

theorem save_results_unencodable_counterexample:
  "parse_llm_output surrogate_loads (fenced [] surrogate_body []) = Inr surrogate_verdict \<and>
   surrogate_results =
     [(''note A'', PDict [(''falls'', PStr ''true'')]), (''note B'', surrogate_verdict)] \<and>
   save_results (\<lambda>path. True) ((init ''out.csv'')\<lparr>results := surrogate_results\<rparr>) Map.empty =
     (Some UnicodeEncodeError, [''out.csv'' \<mapsto>
        ''Progres note,Falls Detected?'' @ [CHR 0x0D, CHR 0x0A] @
        ''note A,true'' @ [CHR 0x0D, CHR 0x0A]])"
proof -
  have t: "CHR 0x60 \<notin> set surrogate_body"
    by (simp add: surrogate_body_def)
  have "findall_json ([] @ fenced [] surrogate_body [] @ []) = [CHR ''{'' # surrogate_body @ ''}'']"
    using t by (intro findall_json_one) simp_all
  then have a: "parse_llm_output surrogate_loads (fenced [] surrogate_body []) =
      Inr surrogate_verdict"
    by (simp add: parse_llm_output_def fenced_not_Nil surrogate_loads_def)
  have h: "encode_utf8 (writerow [PStr ''Progres note'', PStr ''Falls Detected?'']) =
      Some (''Progres note,Falls Detected?'' @ [CHR 0x0D, CHR 0x0A])"
    by (simp only: writerow_header) (rule encode_utf8_ascii, simp)
  have r1: "encode_utf8 (writerow [PStr ''note A'', PStr ''true'']) =
      Some (''note A,true'' @ [CHR 0x0D, CHR 0x0A])"
    by (simp only: writerow_note_A) (rule encode_utf8_ascii, simp)
  have "\<not> encodable (cell_text (final_answer surrogate_verdict))"
    by (simp add: final_answer_def surrogate_verdict_def cell_text_def encodable_def)
  then have r2: "encode_utf8 (writerow [PStr ''note B'', final_answer surrogate_verdict]) = None"
    by (simp add: encode_utf8_None_iff encodable_writerow)
  have f1: "final_answer (PDict [(''falls'', PStr ''true'')]) = PStr ''true''"
    by (simp add: final_answer_def)
  have b: "save_results (\<lambda>path. True) ((init ''out.csv'')\<lparr>results := surrogate_results\<rparr>)
      Map.empty =
     (Some UnicodeEncodeError, [''out.csv'' \<mapsto>
        ''Progres note,Falls Detected?'' @ [CHR 0x0D, CHR 0x0A] @
        ''note A,true'' @ [CHR 0x0D, CHR 0x0A]])"
    using h r1 r2 f1
    by (simp add: save_results_def init_def surrogate_results_def)
  show ?thesis
    using a b by (simp add: surrogate_results_def)
qed

text \<open>
  C9: running \<open>save_results\<close> a second time on the same core gives the outcome and the
  files of the first run, whatever the files held before: the destination is
  overwritten with the same text.
\<close>

theorem save_results_idempotent:
  "save_results can_open c (snd (save_results can_open c files)) = save_results can_open c files"
  by (simp add: save_results_def split: prod.splits)

end
